theory Spec2Isabelle
  imports Complex_Main "HOL-Library.Char_ord" "HOL-Library.List_Lexorder"
begin

section \<open>Data model\<close>

text \<open>
  A pandas DataFrame as the scripts use it: an ordered sequence of named columns. A column
  is numeric (\<open>select_dtypes(include=[np.number])\<close>) or categorical
  (\<open>select_dtypes(include=['object'])\<close>). A cell is \<open>None\<close> when it is missing (NaN),
  \<open>Some v\<close> otherwise. Floating-point numbers are modelled as exact reals; NaN is \<open>None\<close>,
  also as the result of a statistic that pandas reports as NaN. Row labels are the default
  \<open>0..n-1\<close> and are not modelled.
\<close>

datatype column = Num "real option list" | Cat "string option list"

type_synonym table = "(string \<times> column) list"

fun col_len :: "column \<Rightarrow> nat" where
  "col_len (Num vs) = length vs"
| "col_len (Cat vs) = length vs"

fun nrows :: "table \<Rightarrow> nat" where
  "nrows [] = 0"
| "nrows ((name, c) # t) = col_len c"

definition wf_table :: "table \<Rightarrow> bool" where
  "wf_table t = (list_all (\<lambda>(name, c). col_len c = nrows t) t \<and> distinct (map fst t))"

section \<open>Library operations on a series\<close>

text \<open>\<open>Series.dropna()\<close>: the non-missing values, in order.\<close>

fun dropna :: "'a option list \<Rightarrow> 'a list" where
  "dropna [] = []"
| "dropna (None # xs) = dropna xs"
| "dropna (Some x # xs) = x # dropna xs"

text \<open>\<open>Series.isnull().sum()\<close>.\<close>

definition isnull_sum :: "'a option list \<Rightarrow> nat" where
  "isnull_sum xs = length (filter (\<lambda>x. x = None) xs)"

text \<open>\<open>Series.fillna(v)\<close>; filling with NaN leaves the series as it is.\<close>

definition fillna :: "'a option \<Rightarrow> 'a option list \<Rightarrow> 'a option list" where
  "fillna v xs = map (\<lambda>x. case x of None \<Rightarrow> v | Some y \<Rightarrow> Some y) xs"

text \<open>Arithmetic and comparison with NaN: an operation on NaN is NaN, a comparison
  with NaN is false.\<close>

definition nan2 :: "(real \<Rightarrow> real \<Rightarrow> real) \<Rightarrow> real option \<Rightarrow> real option \<Rightarrow> real option" where
  "nan2 f a b = (case a of None \<Rightarrow> None | Some x \<Rightarrow> (case b of None \<Rightarrow> None | Some y \<Rightarrow> Some (f x y)))"

definition nan_lt :: "real option \<Rightarrow> real option \<Rightarrow> bool" where
  "nan_lt a b = (case a of None \<Rightarrow> False | Some x \<Rightarrow> (case b of None \<Rightarrow> False | Some y \<Rightarrow> x < y))"

text \<open>Division of floats where the divisor may be zero: \<open>0/0\<close> is NaN. (A non-zero
  numerator over zero would be an infinity; where this division is used a zero divisor
  forces a zero numerator: in \<open>scale_features\<close> a zero spread means that every value equals
  the centre, and a table without rows has no missing entries.)\<close>

definition nan_div :: "real option \<Rightarrow> real option \<Rightarrow> real option" where
  "nan_div a b = (case a of None \<Rightarrow> None | Some x \<Rightarrow>
     (case b of None \<Rightarrow> None | Some y \<Rightarrow> if y = 0 then None else Some (x / y)))"

text \<open>
  \<open>Series.quantile(q)\<close> with the default linear interpolation: over the sorted non-missing
  values \<open>s\<close> of length \<open>n\<close>, the value at the fractional position \<open>h = (n-1) * q\<close>,
  interpolated between the two closest ranks; NaN when there is no value. The scripts call
  it with \<open>q = 0.25\<close> and \<open>q = 0.75\<close> only (outside \<open>[0, 1]\<close> pandas raises).
\<close>

definition lerp_sorted :: "real list \<Rightarrow> real \<Rightarrow> real" where
  "lerp_sorted s h =
     (let i = nat \<lfloor>h\<rfloor>; g = h - real i
      in if Suc i < length s then s ! i + (s ! Suc i - s ! i) * g else s ! i)"

definition quantile :: "real option list \<Rightarrow> real \<Rightarrow> real option" where
  "quantile xs q =
     (let s = sort (dropna xs)
      in if s = [] then None else Some (lerp_sorted s (real (length s - 1) * q)))"

section \<open>Outlier handling (3_data_cleaning.py, part 5)\<close>

text \<open>\<open>detect_outliers_iqr(df, column)\<close>, on the series \<open>df[column]\<close>: the outlier mask
  and the two bounds.\<close>

definition detect_outliers_iqr :: "real option list \<Rightarrow> bool list \<times> real option \<times> real option" where
  "detect_outliers_iqr col =
     (let Q1 = quantile col (25 / 100);
          Q3 = quantile col (75 / 100);
          IQR = nan2 (-) Q3 Q1;
          lower_bound = nan2 (-) Q1 (nan2 (*) (Some (15 / 10)) IQR);
          upper_bound = nan2 (+) Q3 (nan2 (*) (Some (15 / 10)) IQR);
          outliers = map (\<lambda>v. nan_lt v lower_bound \<or> nan_lt upper_bound v) col
      in (outliers, lower_bound, upper_bound))"

text \<open>The two assignments of the \<open>cap\<close> branch, the second on the result of the first.\<close>

definition cap_series :: "real option list \<Rightarrow> real option \<Rightarrow> real option \<Rightarrow> real option list" where
  "cap_series vs lower_bound upper_bound =
     (let vs1 = map (\<lambda>v. if nan_lt v lower_bound then lower_bound else v) vs
      in map (\<lambda>v. if nan_lt upper_bound v then upper_bound else v) vs1)"

text \<open>The body of the first loop of \<open>handle_outliers\<close> for one column; a column that is
  not numeric is not visited.\<close>

fun handle_outliers_col :: "string \<Rightarrow> column \<Rightarrow> column" where
  "handle_outliers_col method (Cat vs) = Cat vs"
| "handle_outliers_col method (Num vs) =
     (case detect_outliers_iqr vs of (outliers, lower_bound, upper_bound) \<Rightarrow>
        if length (filter id outliers) > 0 \<and> method = ''cap''
        then Num (cap_series vs lower_bound upper_bound)
        else Num vs)"

text \<open>The mask of the \<open>remove\<close> branch: a row is marked when one of its numeric cells is
  an outlier of its column.\<close>

fun outlier_mask :: "table \<Rightarrow> bool list \<Rightarrow> bool list" where
  "outlier_mask [] msk = msk"
| "outlier_mask ((name, Cat vs) # t) msk = outlier_mask t msk"
| "outlier_mask ((name, Num vs) # t) msk =
     outlier_mask t (map (\<lambda>(m, out). m \<or> out) (zip msk (fst (detect_outliers_iqr vs))))"

text \<open>Boolean indexing \<open>df[keep]\<close>: the rows whose mask entry is true.\<close>

definition select_list :: "bool list \<Rightarrow> 'a list \<Rightarrow> 'a list" where
  "select_list keep xs = map fst (filter snd (zip xs keep))"

fun select_col :: "bool list \<Rightarrow> column \<Rightarrow> column" where
  "select_col keep (Num vs) = Num (select_list keep vs)"
| "select_col keep (Cat vs) = Cat (select_list keep vs)"

definition select_rows :: "bool list \<Rightarrow> table \<Rightarrow> table" where
  "select_rows keep t = map (\<lambda>(name, c). (name, select_col keep c)) t"

definition handle_outliers :: "table \<Rightarrow> string \<Rightarrow> table" where
  "handle_outliers df method =
     (let df_cleaned = map (\<lambda>(name, c). (name, handle_outliers_col method c)) df
      in if method = ''remove''
         then (let msk = outlier_mask df_cleaned (replicate (nrows df_cleaned) False)
               in select_rows (map Not msk) df_cleaned)
         else df_cleaned)"

section \<open>Missing values (3_data_cleaning.py, part 3)\<close>

text \<open>Exceptions of the scripts that are modelled: a failed lookup by key or label
  (\<open>KeyError\<close>, with the key) and a failed lookup by position (\<open>IndexError\<close>).\<close>

datatype error = KeyError string | IndexError

text \<open>\<open>Series.median()\<close>: the median of the non-missing values, NaN when there is none.\<close>

definition median :: "real option list \<Rightarrow> real option" where
  "median xs =
     (let s = sort (dropna xs); n = length s
      in if n = 0 then None
         else if odd n then Some (s ! (n div 2))
         else Some ((s ! (n div 2 - 1) + s ! (n div 2)) / 2))"

text \<open>\<open>Series.mode()\<close>: the non-missing values of the highest frequency, as pandas
  returns them: sorted in ascending order; empty when there is no value.\<close>

definition mode :: "'a::linorder option list \<Rightarrow> 'a list" where
  "mode xs =
     (let d = dropna xs; top = fold max (map (count_list d) d) 0
      in sort (remdups (filter (\<lambda>v. count_list d v = top) d)))"

fun series_isnull_sum :: "column \<Rightarrow> nat" where
  "series_isnull_sum (Num vs) = isnull_sum vs"
| "series_isnull_sum (Cat vs) = isnull_sum vs"

text \<open>The loop over the numeric columns: a column with a missing value is filled with
  its median.\<close>

fun fill_numerical :: "column \<Rightarrow> column" where
  "fill_numerical (Num vs) = (if isnull_sum vs > 0 then Num (fillna (median vs) vs) else Num vs)"
| "fill_numerical (Cat vs) = Cat vs"

text \<open>The loop over the categorical columns: a column with a missing value is filled
  with \<open>mode()[0]\<close>; on a column without any value \<open>mode()\<close> is empty and the lookup of
  its label \<open>0\<close> raises.\<close>

fun fill_categorical :: "table \<Rightarrow> error + table" where
  "fill_categorical [] = Inr []"
| "fill_categorical ((name, Num vs) # t) =
     (case fill_categorical t of Inl e \<Rightarrow> Inl e | Inr t' \<Rightarrow> Inr ((name, Num vs) # t'))"
| "fill_categorical ((name, Cat vs) # t) =
     (if isnull_sum vs > 0
      then (case mode vs of
              [] \<Rightarrow> Inl (KeyError ''0'')
            | mode_value # _ \<Rightarrow>
                (case fill_categorical t of Inl e \<Rightarrow> Inl e
                 | Inr t' \<Rightarrow> Inr ((name, Cat (fillna (Some mode_value) vs)) # t')))
      else (case fill_categorical t of Inl e \<Rightarrow> Inl e | Inr t' \<Rightarrow> Inr ((name, Cat vs) # t')))"

definition handle_missing_values :: "table \<Rightarrow> error + table" where
  "handle_missing_values df =
     (let total_missing = sum_list (map (\<lambda>(name, c). series_isnull_sum c) df)
      in if total_missing = 0 then Inr df
         else fill_categorical (map (\<lambda>(name, c). (name, fill_numerical c)) df))"

section \<open>Duplicate rows (3_data_cleaning.py, part 4)\<close>

datatype cell = NumCell "real option" | CatCell "string option"

fun cells :: "column \<Rightarrow> cell list" where
  "cells (Num vs) = map NumCell vs"
| "cells (Cat vs) = map CatCell vs"

text \<open>The rows of a table, each the list of its cells in column order; a table without
  columns has no rows.\<close>

fun rows_of :: "table \<Rightarrow> cell list list" where
  "rows_of [] = []"
| "rows_of [(name, c)] = map (\<lambda>x. [x]) (cells c)"
| "rows_of ((name, c) # t) = map (\<lambda>(x, r). x # r) (zip (cells c) (rows_of t))"

text \<open>\<open>DataFrame.duplicated()\<close>: a row is marked when an equal row stands before it
  (missing cells compare equal to each other).\<close>

definition duplicated :: "'a list \<Rightarrow> bool list" where
  "duplicated rs = map (\<lambda>i. rs ! i \<in> set (take i rs)) [0..<length rs]"

definition remove_duplicates :: "table \<Rightarrow> table" where
  "remove_duplicates df =
     (let dup = duplicated (rows_of df); duplicates_count = length (filter id dup)
      in if duplicates_count = 0 then df
         else select_rows (map Not dup) df)"

section \<open>Encoding (3_data_cleaning.py, part 6)\<close>

text \<open>\<open>Series.unique()\<close>: the distinct entries in order of first appearance, the missing
  entry among them when there is one. \<open>Series.nunique()\<close>: the number of distinct
  non-missing values.\<close>

fun unique_from :: "'a list \<Rightarrow> 'a list \<Rightarrow> 'a list" where
  "unique_from seen [] = []"
| "unique_from seen (x # xs) =
     (if x \<in> set seen then unique_from seen xs else x # unique_from (x # seen) xs)"

definition unique :: "'a list \<Rightarrow> 'a list" where
  "unique xs = unique_from [] xs"

definition nunique :: "'a option list \<Rightarrow> nat" where
  "nunique xs = length (unique (dropna xs))"

type_synonym mapping = "(string option \<times> nat) list"

text \<open>\<open>Series.map(mapping)\<close> with a dict: an entry that is not a key becomes NaN; a
  missing entry is looked up like any other key.\<close>

definition map_series :: "mapping \<Rightarrow> string option list \<Rightarrow> real option list" where
  "map_series m vs = map (\<lambda>v. map_option real (map_of m v)) vs"

text \<open>\<open>pd.get_dummies(series, prefix=col, drop_first=True)\<close>: one indicator column
  \<open>col_value\<close> for each distinct non-missing value in ascending order, the first left
  out. An indicator is written as the number 1 or 0.\<close>

definition get_dummies :: "string \<Rightarrow> string option list \<Rightarrow> table" where
  "get_dummies col vs =
     map (\<lambda>level. (col @ ''_'' @ level, Num (map (\<lambda>v. Some (if v = Some level then 1 else 0)) vs)))
       (tl (sort (remdups (dropna vs))))"

text \<open>\<open>df[col] = series\<close> on an existing column, and \<open>df.drop(col, axis=1)\<close>.\<close>

definition set_column :: "string \<Rightarrow> column \<Rightarrow> table \<Rightarrow> table" where
  "set_column col c df = map (\<lambda>(name, c'). if name = col then (name, c) else (name, c')) df"

definition drop_column :: "string \<Rightarrow> table \<Rightarrow> table" where
  "drop_column col df = filter (\<lambda>(name, c). name \<noteq> col) df"

text \<open>The body of the loop of \<open>encode_categorical_variables\<close> for the column \<open>col\<close>
  with the entries \<open>vs\<close>, on the pair of \<open>df_encoded\<close> and \<open>encoding_map\<close>.\<close>

definition encode_column ::
  "string \<Rightarrow> string option list \<Rightarrow> table \<times> (string \<times> mapping) list \<Rightarrow> table \<times> (string \<times> mapping) list" where
  "encode_column col vs st =
     (case st of (df_encoded, encoding_map) \<Rightarrow>
       (let unique_values = nunique vs
        in if unique_values = 2
           then (let unique_vals = unique vs;
                     mapping = [(unique_vals ! 0, 0), (unique_vals ! 1, 1)]
                 in (set_column col (Num (map_series mapping vs)) df_encoded,
                     encoding_map @ [(col, mapping)]))
           else if unique_values \<le> 10
           then (let unique_vals = unique vs;
                     mapping = zip unique_vals [0..<length unique_vals]
                 in (set_column col (Num (map_series mapping vs)) df_encoded,
                     encoding_map @ [(col, mapping)]))
           else (let dummies = get_dummies col vs
                 in (drop_column col (df_encoded @ dummies), encoding_map))))"

text \<open>The loop visits the categorical columns found before it starts and reads each
  from the current \<open>df_encoded\<close>.\<close>

fun categorical_cols :: "table \<Rightarrow> string list" where
  "categorical_cols [] = []"
| "categorical_cols ((name, Cat vs) # t) = name # categorical_cols t"
| "categorical_cols ((name, Num vs) # t) = categorical_cols t"

fun encode_loop ::
  "string list \<Rightarrow> table \<times> (string \<times> mapping) list \<Rightarrow> table \<times> (string \<times> mapping) list" where
  "encode_loop [] st = st"
| "encode_loop (col # cols) st =
     (case map_of (fst st) col of
        Some (Cat vs) \<Rightarrow> encode_loop cols (encode_column col vs st)
      | _ \<Rightarrow> encode_loop cols st)"

definition encode_categorical_variables :: "table \<Rightarrow> table \<times> (string \<times> mapping) list" where
  "encode_categorical_variables df =
     (if categorical_cols df = [] then (df, [])
      else encode_loop (categorical_cols df) (df, []))"

section \<open>Scaling (3_data_cleaning.py, part 7)\<close>

text \<open>\<open>mean()\<close>, \<open>std()\<close> (sample standard deviation), \<open>min()\<close> and \<open>max()\<close> of a series skip
  the missing entries; they are NaN when there is no value, and \<open>std()\<close> also when there is
  only one.\<close>

definition mean :: "real option list \<Rightarrow> real option" where
  "mean xs = (let d = dropna xs in if d = [] then None else Some (sum_list d / real (length d)))"

definition std :: "real option list \<Rightarrow> real option" where
  "std xs =
     (let d = dropna xs; n = length d
      in if n < 2 then None
         else (let m = sum_list d / real n
               in Some (sqrt (sum_list (map (\<lambda>x. (x - m)\<^sup>2) d) / real (n - 1)))))"

definition series_min :: "real option list \<Rightarrow> real option" where
  "series_min xs = (case dropna xs of [] \<Rightarrow> None | x # d \<Rightarrow> Some (fold min d x))"

definition series_max :: "real option list \<Rightarrow> real option" where
  "series_max xs = (case dropna xs of [] \<Rightarrow> None | x # d \<Rightarrow> Some (fold max d x))"

datatype param = PStr string | PNum "real option"

type_synonym scaling_params = "(string \<times> (string \<times> param) list) list"

fun scale_features_loop :: "string \<Rightarrow> table \<Rightarrow> table \<times> scaling_params" where
  "scale_features_loop method [] = ([], [])"
| "scale_features_loop method ((col, Cat vs) # t) =
     (case scale_features_loop method t of (t', ps) \<Rightarrow> ((col, Cat vs) # t', ps))"
| "scale_features_loop method ((col, Num vs) # t) =
     (case scale_features_loop method t of (t', ps) \<Rightarrow>
        if method = ''standardize''
        then (let mean_v = mean vs; std_v = std vs
              in ((col, Num (map (\<lambda>v. nan_div (nan2 (-) v mean_v) std_v) vs)) # t',
                  (col, [(''method'', PStr ''standardize''), (''mean'', PNum mean_v), (''std'', PNum std_v)]) # ps))
        else if method = ''normalize''
        then (let min_val = series_min vs; max_val = series_max vs
              in ((col, Num (map (\<lambda>v. nan_div (nan2 (-) v min_val) (nan2 (-) max_val min_val)) vs)) # t',
                  (col, [(''method'', PStr ''normalize''), (''min'', PNum min_val), (''max'', PNum max_val)]) # ps))
        else ((col, Num vs) # t', ps))"

definition scale_features :: "table \<Rightarrow> string \<Rightarrow> table \<times> scaling_params" where
  "scale_features df method = scale_features_loop method df"

section \<open>Distribution and bias analysis (4_distribution_and_bias_analysis.py)\<close>

definition target_col :: string where
  "target_col = ''loan_approval_status''"

text \<open>A class label of the target column, which may be text or a number.\<close>

datatype label = LStr string | LNum real

text \<open>\<open>Series.value_counts()\<close>: each distinct non-missing value with the number of its
  occurrences, the most frequent first.\<close>

definition value_counts :: "'a option list \<Rightarrow> ('a \<times> nat) list" where
  "value_counts xs =
     (let d = dropna xs
      in sort_key (\<lambda>(v, c). - int c) (map (\<lambda>v. (v, count_list d v)) (unique d)))"

fun series_value_counts :: "column \<Rightarrow> (label \<times> nat) list" where
  "series_value_counts (Cat vs) = map (\<lambda>(v, c). (LStr v, c)) (value_counts vs)"
| "series_value_counts (Num vs) = map (\<lambda>(v, c). (LNum v, c)) (value_counts vs)"

text \<open>\<open>max()\<close> and \<open>min()\<close> of a series of counts: NaN when the series is empty.\<close>

definition counts_max :: "nat list \<Rightarrow> real option" where
  "counts_max cs = (case cs of [] \<Rightarrow> None | c # cs' \<Rightarrow> Some (real (fold max cs' c)))"

definition counts_min :: "nat list \<Rightarrow> real option" where
  "counts_min cs = (case cs of [] \<Rightarrow> None | c # cs' \<Rightarrow> Some (real (fold min cs' c)))"

record class_balance_info =
  target_column :: string
  class_counts :: "(label \<times> nat) list"
  class_percentages :: "(label \<times> real) list"
  imbalance_ratio :: "real option"

record dist_stats =
  stat_mean :: "real option"
  stat_median :: "real option"
  stat_std :: "real option"
  stat_min :: "real option"
  stat_max :: "real option"
  missing_pct :: "real option"

record bias_entry =
  feature_value_counts :: "(string \<times> nat) list"
  approval_rates :: "(string \<times> real) list"
  bias_difference :: real
  bias_detected :: bool

text \<open>\<open>self.results\<close>: a dict whose keys are set by the stages; \<open>None\<close> is a key that has
  not been set.\<close>

record results =
  dataset_info :: "(nat \<times> nat \<times> string list) option"
  class_balance :: "class_balance_info option"
  numerical_distributions :: "(string \<times> dist_stats) list option"
  bias_analysis :: "(string \<times> bias_entry) list option"

text \<open>The lines printed by the analysis that report a finding.\<close>

datatype message =
    TargetColumnNotFound string
  | ClassImbalance
  | ReasonablyBalanced
  | BiasDetected string real
  | NoSignificantBias string

definition load_data :: "table \<Rightarrow> results" where
  "load_data df =
     \<lparr>dataset_info = Some (nrows df, length df, map fst df),
      class_balance = None, numerical_distributions = None, bias_analysis = None\<rparr>"

text \<open>\<open>analyze_target_balance\<close>; the plot of the class balance is not modelled.\<close>

definition analyze_target_balance :: "table \<Rightarrow> results \<Rightarrow> results \<times> message list" where
  "analyze_target_balance df res =
     (case map_of df target_col of
        None \<Rightarrow> (res, [TargetColumnNotFound target_col])
      | Some tc \<Rightarrow>
          (let counts = series_value_counts tc;
               total = sum_list (map snd counts);
               percentages = map (\<lambda>(cls, c). (cls, real c / real total * 100)) counts;
               max_class = counts_max (map snd counts);
               min_class = counts_min (map snd counts);
               ratio = nan2 (/) max_class min_class
           in (res\<lparr>class_balance := Some \<lparr>target_column = target_col, class_counts = counts,
                                          class_percentages = percentages, imbalance_ratio = ratio\<rparr>\<rparr>,
               [if nan_lt (Some (15 / 10)) ratio then ClassImbalance else ReasonablyBalanced])))"

text \<open>\<open>str.lower()\<close> on ASCII letters, and the test \<open>'id' in col.lower()\<close>.\<close>

definition lower_char :: "char \<Rightarrow> char" where
  "lower_char c =
     (if (65::nat) \<le> of_char c \<and> of_char c \<le> (90::nat) then char_of (of_char c + (32::nat)) else c)"

fun contains_id :: "string \<Rightarrow> bool" where
  "contains_id (a # b # r) = ((lower_char a = CHR ''i'' \<and> lower_char b = CHR ''d'') \<or> contains_id (b # r))"
| "contains_id r = False"

text \<open>\<open>analyze_numerical_distributions\<close>: of the statistics of a column those that are
  exact in arithmetic are kept (skewness, kurtosis and the normality test of SciPy, and the
  distribution type derived from them, are left out, as are the plots).\<close>

fun numerical_stats :: "nat \<Rightarrow> table \<Rightarrow> (string \<times> dist_stats) list" where
  "numerical_stats n [] = []"
| "numerical_stats n ((col, Cat vs) # t) = numerical_stats n t"
| "numerical_stats n ((col, Num vs) # t) =
     (if contains_id col then numerical_stats n t
      else (col, \<lparr>stat_mean = mean vs, stat_median = median vs, stat_std = std vs,
                  stat_min = series_min vs, stat_max = series_max vs,
                  missing_pct = nan2 (*) (nan_div (Some (real (isnull_sum vs))) (Some (real n))) (Some 100)\<rparr>)
           # numerical_stats n t)"

definition analyze_numerical_distributions :: "table \<Rightarrow> results \<Rightarrow> results" where
  "analyze_numerical_distributions df res =
     res\<lparr>numerical_distributions := Some (numerical_stats (nrows df) df)\<rparr>"

text \<open>
  \<open>pd.crosstab(feature, target, normalize='index') * 100\<close> and the choice of the approval
  column: over the rows where both entries are present, for each feature value in ascending
  order the percentage of its rows whose target is the approval label. The approval label
  is \<open>'Approved'\<close> when it occurs, otherwise the first target label in ascending order; an
  empty cross-tabulation has no first column and the lookup raises.
\<close>

definition crosstab_pairs :: "'a option list \<Rightarrow> 'b option list \<Rightarrow> ('a \<times> 'b) list" where
  "crosstab_pairs xs ys =
     concat (map (\<lambda>(x, y). case x of None \<Rightarrow> [] | Some a \<Rightarrow> (case y of None \<Rightarrow> [] | Some b \<Rightarrow> [(a, b)]))
                 (zip xs ys))"

definition approval_rates_of ::
  "string option list \<Rightarrow> 'b::linorder option list \<Rightarrow> 'b option \<Rightarrow> error + (string \<times> real) list" where
  "approval_rates_of xs ys approved =
     (let pairs = crosstab_pairs xs ys;
          index = sort (remdups (map fst pairs));
          columns = sort (remdups (map snd pairs))
      in case columns of
           [] \<Rightarrow> Inl IndexError
         | first # _ \<Rightarrow>
             (let approval_col = (case approved of
                                    None \<Rightarrow> first
                                  | Some a \<Rightarrow> if a \<in> set columns then a else first)
              in Inr (map (\<lambda>category.
                        (category,
                         real (count_list pairs (category, approval_col))
                           / real (count_list (map fst pairs) category) * 100))
                      index)))"

fun crosstab_rates :: "string option list \<Rightarrow> column \<Rightarrow> error + (string \<times> real) list" where
  "crosstab_rates xs (Cat ys) = approval_rates_of xs ys (Some ''Approved'')"
| "crosstab_rates xs (Num ys) = approval_rates_of xs ys None"

text \<open>\<open>max(...)\<close> and \<open>min(...)\<close> of the rates; the list is not empty where they are
  called.\<close>

definition max_rate_of :: "real list \<Rightarrow> real" where
  "max_rate_of rs = fold max (tl rs) (hd rs)"

definition min_rate_of :: "real list \<Rightarrow> real" where
  "min_rate_of rs = fold min (tl rs) (hd rs)"

text \<open>The bias analysis of one feature column against the target column.\<close>

definition analyze_feature :: "string \<Rightarrow> string option list \<Rightarrow> column \<Rightarrow> error + (bias_entry \<times> message)" where
  "analyze_feature col xs tc =
     (case crosstab_rates xs tc of
        Inl e \<Rightarrow> Inl e
      | Inr rates \<Rightarrow>
          (let max_rate = max_rate_of (map snd rates);
               min_rate = min_rate_of (map snd rates);
               bias_diff = max_rate - min_rate;
               detected = (bias_diff > 15)
           in Inr (\<lparr>feature_value_counts = value_counts xs, approval_rates = rates,
                     bias_difference = bias_diff, bias_detected = detected\<rparr>,
                   if detected then BiasDetected col bias_diff else NoSignificantBias col)))"

fun bias_loop ::
  "table \<Rightarrow> string list \<Rightarrow> error + ((string \<times> bias_entry) list \<times> message list)" where
  "bias_loop df [] = Inr ([], [])"
| "bias_loop df (col # cols) =
     (case (map_of df col, map_of df target_col) of
        (Some (Cat xs), Some tc) \<Rightarrow>
          (case analyze_feature col xs tc of
             Inl e \<Rightarrow> Inl e
           | Inr (entry, msg) \<Rightarrow>
               (case bias_loop df cols of
                  Inl e \<Rightarrow> Inl e
                | Inr (entries, msgs) \<Rightarrow> Inr ((col, entry) # entries, msg # msgs)))
      | _ \<Rightarrow> bias_loop df cols)"

text \<open>\<open>_plot_categorical_bias\<close>: for each column it cross-tabulates against
  \<open>filtered_df[target_col]\<close>, a lookup that raises when the table has no such column. The
  drawing itself is not modelled.\<close>

definition plot_categorical_bias :: "table \<Rightarrow> string list \<Rightarrow> error + unit" where
  "plot_categorical_bias df cols =
     (if cols \<noteq> [] \<and> map_of df target_col = None then Inl (KeyError target_col) else Inr ())"

definition analyze_categorical_bias :: "table \<Rightarrow> results \<Rightarrow> error + (results \<times> message list)" where
  "analyze_categorical_bias df res =
     (let cols = remove1 target_col (categorical_cols df)
      in case bias_loop df cols of
           Inl e \<Rightarrow> Inl e
         | Inr (entries, msgs) \<Rightarrow>
             (case plot_categorical_bias df cols of
                Inl e \<Rightarrow> Inl e
              | Inr u \<Rightarrow> Inr (res\<lparr>bias_analysis := Some entries\<rparr>, msgs)))"

text \<open>The data that \<open>_create_report_content\<close> renders, in the order of the report; each
  \<open>self.results[key]\<close> raises when the key has not been set.\<close>

record report_content =
  report_rows :: nat
  report_columns :: nat
  report_target :: string
  report_classes :: "(label \<times> nat \<times> real option) list"
  report_imbalance_ratio :: "real option"
  report_imbalance_warning :: bool
  report_numerical :: "(string \<times> dist_stats) list"
  report_bias :: "(string \<times> bias_entry) list"

definition create_report_content :: "results \<Rightarrow> error + report_content" where
  "create_report_content res =
     (case dataset_info res of
        None \<Rightarrow> Inl (KeyError ''dataset_info'')
      | Some (rows, columns, names) \<Rightarrow>
     (case class_balance res of
        None \<Rightarrow> Inl (KeyError ''class_balance'')
      | Some cb \<Rightarrow>
     (case numerical_distributions res of
        None \<Rightarrow> Inl (KeyError ''numerical_distributions'')
      | Some nd \<Rightarrow>
     (case bias_analysis res of
        None \<Rightarrow> Inl (KeyError ''bias_analysis'')
      | Some ba \<Rightarrow>
          Inr \<lparr>report_rows = rows, report_columns = columns,
               report_target = target_column cb,
               report_classes = map (\<lambda>(cls, c). (cls, c, map_of (class_percentages cb) cls))
                                    (class_counts cb),
               report_imbalance_ratio = imbalance_ratio cb,
               report_imbalance_warning = nan_lt (Some (15 / 10)) (imbalance_ratio cb),
               report_numerical = nd, report_bias = ba\<rparr>))))"

definition generate_report :: "results \<Rightarrow> error + report_content" where
  "generate_report res = create_report_content res"

definition run_analysis :: "table \<Rightarrow> error + (results \<times> message list \<times> report_content)" where
  "run_analysis df =
     (let res0 = load_data df;
          (res1, msgs1) = analyze_target_balance df res0;
          res2 = analyze_numerical_distributions df res1
      in case analyze_categorical_bias df res2 of
           Inl e \<Rightarrow> Inl e
         | Inr (res3, msgs3) \<Rightarrow>
             (case generate_report res3 of
                Inl e \<Rightarrow> Inl e
              | Inr content \<Rightarrow> Inr (res3, msgs1 @ msgs3, content)))"

section \<open>Example tables and auxiliary predicates\<close>

text \<open>A table for which the categorical imputation has a fill value wherever it needs one:
  each categorical column with a missing entry has at least one value.\<close>

definition fillable :: "table \<Rightarrow> bool" where
  "fillable t = list_all (\<lambda>(name, c). case c of Num vs \<Rightarrow> True | Cat vs \<Rightarrow> isnull_sum vs = 0 \<or> dropna vs \<noteq> []) t"

definition age_table :: table where
  "age_table = [(''age'', Num [Some 20, Some 21, Some 22, Some 23, Some 1000])]"

definition income_city_table :: table where
  "income_city_table = [(''income'', Num [None, None]), (''city'', Cat [Some ''b'', Some ''a''])]"

definition empty_city_table :: table where
  "empty_city_table = [(''city'', Cat [None, None])]"

definition applicants_table :: table where
  "applicants_table =
     [(''income'', Num [Some 10, Some 20, Some 10, None, None]),
      (''city'', Cat [Some ''x'', Some ''y'', Some ''x'', None, None])]"


definition gender_table :: table where
  "gender_table = [(''gender'', Cat [Some ''M'', Some ''F''])]"

definition id_table :: table where
  "id_table = [(''id'', Num [Some 1, Some 2])]"

definition gender_missing_table :: table where
  "gender_missing_table = [(''gender'', Cat [Some ''M'', None, Some ''F'', Some ''M''])]"

definition grade_missing_table :: table where
  "grade_missing_table = [(''grade'', Cat [None, Some ''a'', Some ''b'', Some ''c''])]"

definition country_missing_table :: table where
  "country_missing_table = [(''country'', Cat [None, Some ''US'', Some ''US''])]"

text \<open>
  The approval rates of a feature as the claim reads them, written on the two columns
  themselves, for comparison with what the analysis stores. The rows that count are those
  where the feature and the target are both present. The approval label is the preferred
  label when a row has it, otherwise the least target label; the rate of a category is the
  percentage of its rows whose target is the approval label; the categories stand in
  ascending order.
\<close>

definition approval_label_spec :: "'a option list \<Rightarrow> 'b::linorder option list \<Rightarrow> 'b option \<Rightarrow> 'b" where
  "approval_label_spec xs ys preferred =
     (let labels = {b. \<exists>a. (Some a, Some b) \<in> set (zip xs ys)}
      in case preferred of
           None \<Rightarrow> Min labels
         | Some p \<Rightarrow> if p \<in> labels then p else Min labels)"

definition approval_rate_spec :: "'a option list \<Rightarrow> 'b option list \<Rightarrow> 'b \<Rightarrow> 'a \<Rightarrow> real" where
  "approval_rate_spec xs ys positive c =
     real (length (filter (\<lambda>(x, y). x = Some c \<and> y = Some positive) (zip xs ys)))
       / real (length (filter (\<lambda>(x, y). x = Some c \<and> y \<noteq> None) (zip xs ys))) * 100"

definition approval_rates_spec ::
  "string option list \<Rightarrow> 'b::linorder option list \<Rightarrow> 'b option \<Rightarrow> (string \<times> real) list" where
  "approval_rates_spec xs ys preferred =
     map (\<lambda>c. (c, approval_rate_spec xs ys (approval_label_spec xs ys preferred) c))
         (sorted_list_of_set {a. \<exists>b. (Some a, Some b) \<in> set (zip xs ys)})"

fun feature_rates_spec :: "string option list \<Rightarrow> column \<Rightarrow> (string \<times> real) list" where
  "feature_rates_spec xs (Cat ys) = approval_rates_spec xs ys (Some ''Approved'')"
| "feature_rates_spec xs (Num ys) = approval_rates_spec xs ys None"

text \<open>A feature column has a row in which it and the target column are both present; in an
  analysable table the target column exists and every categorical column other than it
  has such a row.\<close>

fun has_joint_row :: "'a option list \<Rightarrow> column \<Rightarrow> bool" where
  "has_joint_row xs (Cat ys) = list_ex (\<lambda>(x, y). x \<noteq> None \<and> y \<noteq> None) (zip xs ys)"
| "has_joint_row xs (Num ys) = list_ex (\<lambda>(x, y). x \<noteq> None \<and> y \<noteq> None) (zip xs ys)"



section \<open>Outlier handling: quantiles, capping and unknown methods\<close>

lemma lerp_bounds:
  assumes "sorted s" "0 \<le> h" "nat \<lfloor>h\<rfloor> < length s"
  shows "s ! nat \<lfloor>h\<rfloor> \<le> lerp_sorted s h"
    and "Suc (nat \<lfloor>h\<rfloor>) < length s \<Longrightarrow> lerp_sorted s h \<le> s ! Suc (nat \<lfloor>h\<rfloor>)"
proof -
  let ?i = "nat \<lfloor>h\<rfloor>"
  have ri: "real ?i = of_int \<lfloor>h\<rfloor>" using assms(2) by simp
  have g0: "0 \<le> h - real ?i" using ri by linarith
  have g1: "h - real ?i \<le> 1" using ri by linarith
  show "s ! ?i \<le> lerp_sorted s h"
  proof (cases "Suc ?i < length s")
    case True
    then have "s ! ?i \<le> s ! Suc ?i" using assms(1) by (simp add: sorted_nth_mono)
    then have "0 \<le> (s ! Suc ?i - s ! ?i) * (h - real ?i)" using g0 by simp
    then show ?thesis using True by (simp add: lerp_sorted_def Let_def)
  next
    case False then show ?thesis by (simp add: lerp_sorted_def Let_def)
  qed
  show "lerp_sorted s h \<le> s ! Suc ?i" if T: "Suc ?i < length s"
  proof -
    have d: "0 \<le> s ! Suc ?i - s ! ?i" using assms(1) T by (simp add: sorted_nth_mono)
    have "(s ! Suc ?i - s ! ?i) * (h - real ?i) \<le> (s ! Suc ?i - s ! ?i) * 1"
      using d g1 by (rule mult_left_mono[rotated])
    then show ?thesis using T by (simp add: lerp_sorted_def Let_def)
  qed
qed

lemma lerp_mono:
  assumes "sorted s" "0 \<le> h1" "h1 \<le> h2" "nat \<lfloor>h2\<rfloor> < length s"
  shows "lerp_sorted s h1 \<le> lerp_sorted s h2"
proof -
  let ?i = "nat \<lfloor>h1\<rfloor>" and ?j = "nat \<lfloor>h2\<rfloor>"
  have ij: "?i \<le> ?j" using assms(3) by (simp add: floor_mono nat_mono)
  have h2: "0 \<le> h2" using assms by linarith
  show ?thesis
  proof (cases "?i = ?j")
    case True
    show ?thesis
    proof (cases "Suc ?i < length s")
      case T: True
      have d: "0 \<le> s ! Suc ?i - s ! ?i" using assms(1) T by (simp add: sorted_nth_mono)
      have "(s ! Suc ?i - s ! ?i) * (h1 - real ?i) \<le> (s ! Suc ?i - s ! ?i) * (h2 - real ?i)"
        using d assms(3) by (intro mult_left_mono) auto
      then show ?thesis using T True by (simp add: lerp_sorted_def Let_def)
    next
      case False then show ?thesis using True by (simp add: lerp_sorted_def Let_def)
    qed
  next
    case False
    then have lt: "Suc ?i \<le> ?j" using ij by linarith
    then have S: "Suc ?i < length s" using assms(4) by linarith
    have "?i < length s" using S by linarith
    then have "lerp_sorted s h1 \<le> s ! Suc ?i" using lerp_bounds(2)[OF assms(1,2) _ S] by simp
    also have "\<dots> \<le> s ! ?j" using assms(1,4) lt by (simp add: sorted_nth_mono)
    also have "\<dots> \<le> lerp_sorted s h2" using lerp_bounds(1)[OF assms(1) h2 assms(4)] .
    finally show ?thesis .
  qed
qed

lemma quantile_mono:
  assumes "0 \<le> p" "p \<le> q" "q \<le> 1" "quantile xs p = Some a" "quantile xs q = Some b"
  shows "a \<le> b"
proof -
  let ?s = "sort (dropna xs)"
  have ne: "dropna xs \<noteq> []" using assms(4) by (auto simp: quantile_def Let_def split: if_splits)
  then have len: "0 < length ?s" by simp
  have a: "a = lerp_sorted ?s (real (length ?s - 1) * p)"
    and b: "b = lerp_sorted ?s (real (length ?s - 1) * q)"
    using assms(4,5) by (auto simp: quantile_def Let_def split: if_splits)
  have "real (length ?s - 1) * q \<le> real (length ?s - 1) * 1"
    using assms(3) by (intro mult_left_mono) auto
  then have "\<lfloor>real (length ?s - 1) * q\<rfloor> \<le> int (length ?s - 1)"
    by (metis floor_mono floor_of_nat mult.right_neutral)
  then have fl: "nat \<lfloor>real (length ?s - 1) * q\<rfloor> < length ?s" using len by linarith
  have "lerp_sorted ?s (real (length ?s - 1) * p) \<le> lerp_sorted ?s (real (length ?s - 1) * q)"
  proof (rule lerp_mono)
    show "sorted ?s" by simp
    show "0 \<le> real (length ?s - 1) * p" using assms(1) by simp
    show "real (length ?s - 1) * p \<le> real (length ?s - 1) * q"
      using assms(2) by (rule mult_left_mono) simp
    show "nat \<lfloor>real (length ?s - 1) * q\<rfloor> < length ?s" by (rule fl)
  qed
  then show ?thesis using a b by simp
qed

lemma set_dropna: "set (dropna xs) = {v. Some v \<in> set xs}"
  by (induction xs rule: dropna.induct) auto

lemma sort_Nil_iff: "sort xs = [] \<longleftrightarrow> xs = []"
  by (metis length_sort length_0_conv)

lemma quantile_None_iff: "quantile xs q = None \<longleftrightarrow> (\<forall>v. Some v \<notin> set xs)"
proof -
  have "quantile xs q = None \<longleftrightarrow> dropna xs = []" by (simp add: quantile_def Let_def sort_Nil_iff)
  also have "\<dots> \<longleftrightarrow> set (dropna xs) = {}" by simp
  also have "\<dots> \<longleftrightarrow> (\<forall>v. Some v \<notin> set xs)" by (auto simp: set_dropna)
  finally show ?thesis .
qed

lemma cap_series_length: "length (cap_series vs lo hi) = length vs"
  by (simp add: cap_series_def Let_def)

lemma cap_series_within:
  assumes "lo \<le> hi" "Some v \<in> set (cap_series vs (Some lo) (Some hi))"
  shows "lo \<le> v \<and> v \<le> hi"
  using assms by (auto simp: cap_series_def Let_def nan_lt_def split: option.splits if_splits)

lemma cap_series_None:
  "i < length vs \<Longrightarrow> cap_series vs (Some lo) (Some hi) ! i = None \<longleftrightarrow> vs ! i = None"
  by (auto simp: cap_series_def Let_def nan_lt_def split: option.splits if_splits)

lemma detect_bounds:
  assumes "quantile vs (25/100) = Some q1" "quantile vs (75/100) = Some q3"
  shows "detect_outliers_iqr vs =
     (map (\<lambda>v. nan_lt v (Some (q1 - 15/10 * (q3 - q1))) \<or> nan_lt (Some (q3 + 15/10 * (q3 - q1))) v) vs,
      Some (q1 - 15/10 * (q3 - q1)), Some (q3 + 15/10 * (q3 - q1)))"
  using assms by (simp add: detect_outliers_iqr_def Let_def nan2_def)

lemma detect_bounds_None:
  assumes "quantile vs (25/100) = None"
  shows "detect_outliers_iqr vs = (map (\<lambda>v. False) vs, None, None)"
  using assms by (simp add: detect_outliers_iqr_def Let_def nan2_def nan_lt_def split: option.splits)

lemma hoc_nocap:
  "detect_outliers_iqr vs = (out, lo, hi) \<Longrightarrow> filter id out = [] \<Longrightarrow>
   handle_outliers_col m (Num vs) = Num vs"
  by simp

lemma hoc_cap:
  "detect_outliers_iqr vs = (out, lo, hi) \<Longrightarrow> filter id out \<noteq> [] \<Longrightarrow>
   handle_outliers_col ''cap'' (Num vs) = Num (cap_series vs lo hi)"
  by simp

lemma handle_outliers_col_cap:
  "\<exists>vs'. handle_outliers_col ''cap'' (Num vs) = Num vs' \<and> length vs' = length vs \<and>
     (\<forall>i<length vs. vs' ! i = None \<longleftrightarrow> vs ! i = None) \<and>
     (\<forall>v. Some v \<in> set vs' \<longrightarrow>
        (\<exists>q1 q3. quantile vs (25/100) = Some q1 \<and> quantile vs (75/100) = Some q3 \<and>
           q1 - 15/10 * (q3 - q1) \<le> v \<and> v \<le> q3 + 15/10 * (q3 - q1)))"
proof (cases "quantile vs (25/100)")
  case None
  then have "\<forall>v. Some v \<notin> set vs" by (simp add: quantile_None_iff)
  moreover have "handle_outliers_col ''cap'' (Num vs) = Num vs"
    using detect_bounds_None[OF None] by simp
  ultimately show ?thesis by simp
next
  case (Some q1)
  then have "\<not> (\<forall>v. Some v \<notin> set vs)" using quantile_None_iff[of vs "25/100"] by simp
  then obtain q3 where q3: "quantile vs (75/100) = Some q3"
    using quantile_None_iff[of vs "75/100"] by (cases "quantile vs (75/100)") auto
  have le: "q1 \<le> q3" using quantile_mono[OF _ _ _ Some q3] by simp
  let ?lo = "q1 - 15/10 * (q3 - q1)" and ?hi = "q3 + 15/10 * (q3 - q1)"
  have "0 \<le> 15/10 * (q3 - q1)" using le by simp
  then have lohi: "?lo \<le> ?hi" using le by linarith
  note d = detect_bounds[OF Some q3]
  let ?out = "map (\<lambda>v. nan_lt v (Some ?lo) \<or> nan_lt (Some ?hi) v) vs"
  show ?thesis
  proof (cases "filter id ?out = []")
    case True
    have eq: "handle_outliers_col ''cap'' (Num vs) = Num vs" by (rule hoc_nocap[OF d True])
    from True have "\<forall>x\<in>set vs. \<not> (nan_lt x (Some ?lo) \<or> nan_lt (Some ?hi) x)"
      by (simp add: filter_empty_conv)
    then have "\<forall>v. Some v \<in> set vs \<longrightarrow> ?lo \<le> v \<and> v \<le> ?hi"
      by (fastforce simp: nan_lt_def)
    then show ?thesis using eq Some q3 by simp
  next
    case False
    have eq: "handle_outliers_col ''cap'' (Num vs) = Num (cap_series vs (Some ?lo) (Some ?hi))"
      by (rule hoc_cap[OF d False])
    show ?thesis using eq cap_series_within[OF lohi] cap_series_None Some q3
      by (auto simp: cap_series_length)
  qed
qed

lemma col_len_handle_outliers_col: "col_len (handle_outliers_col ''cap'' c) = col_len c"
proof (cases c)
  case (Num vs)
  then show ?thesis using handle_outliers_col_cap[of vs] by auto
next
  case (Cat vs) then show ?thesis by simp
qed

lemma nrows_map_cols:
  "(\<And>c. col_len (f c) = col_len c) \<Longrightarrow> nrows (map (\<lambda>(name, c). (name, f c)) t) = nrows t"
  by (cases t) auto

lemma handle_outliers_cap_eq:
  "handle_outliers df ''cap'' = map (\<lambda>(name, c). (name, handle_outliers_col ''cap'' c)) df"
  by (simp add: handle_outliers_def Let_def)

text \<open>
  Claim C1. After \<open>handle_outliers\<close> with the method \<open>cap\<close>, every value of a numeric
  column lies between \<open>Q1 - 1.5 * IQR\<close> and \<open>Q3 + 1.5 * IQR\<close>, the quartiles being those of
  the column before capping, and the table has as many rows as before. (Missing entries
  stay missing; they are not values.)
\<close>

theorem handle_outliers_cap_within_bounds:
  assumes "k < length df" and "df ! k = (name, Num vs)"
  shows "nrows (handle_outliers df ''cap'') = nrows df \<and>
     (\<exists>vs'. handle_outliers df ''cap'' ! k = (name, Num vs') \<and> length vs' = length vs \<and>
        (\<forall>i<length vs. vs' ! i = None \<longleftrightarrow> vs ! i = None) \<and>
        (\<forall>v. Some v \<in> set vs' \<longrightarrow>
          (\<exists>q1 q3. quantile vs (25/100) = Some q1 \<and> quantile vs (75/100) = Some q3 \<and>
             q1 - 15/10 * (q3 - q1) \<le> v \<and> v \<le> q3 + 15/10 * (q3 - q1))))"
proof -
  have n: "nrows (handle_outliers df ''cap'') = nrows df"
    unfolding handle_outliers_cap_eq by (rule nrows_map_cols) (rule col_len_handle_outliers_col)
  have "handle_outliers df ''cap'' ! k = (name, handle_outliers_col ''cap'' (Num vs))"
    unfolding handle_outliers_cap_eq using assms by simp
  then show ?thesis using n handle_outliers_col_cap[of vs] by auto
qed

lemma q1_ex: "quantile [Some 20, Some 21, Some 22, Some 23, Some 1000] (25/100) = Some 21"
  by (simp add: quantile_def lerp_sorted_def Let_def)

lemma q3_ex: "quantile [Some 20, Some 21, Some 22, Some 23, Some 1000] (75/100) = Some 23"
  by (simp add: quantile_def lerp_sorted_def Let_def)

lemma age_detect:
  "detect_outliers_iqr [Some 20, Some 21, Some 22, Some 23, Some 1000] =
     ([False, False, False, False, True], Some 18, Some 26)"
  using detect_bounds[OF q1_ex q3_ex] by (simp add: nan_lt_def)

lemma age_cap: "handle_outliers age_table ''cap'' = [(''age'', Num [Some 20, Some 21, Some 22, Some 23, Some 26])]"
  by (simp add: age_table_def handle_outliers_def age_detect nan_lt_def cap_series_def Let_def)


theorem handle_outliers_cap_within_bounds_witness:
  "0 < length age_table \<and> age_table ! 0 = (''age'', Num [Some 20, Some 21, Some 22, Some 23, Some 1000]) \<and>
   nrows (handle_outliers age_table ''cap'') = nrows age_table \<and>
   (\<exists>vs'. handle_outliers age_table ''cap'' ! 0 = (''age'', Num vs') \<and> length vs' = 5 \<and>
        (\<forall>v. Some v \<in> set vs' \<longrightarrow> 18 \<le> v \<and> v \<le> 26))"
proof -
  let ?vs = "[Some 20, Some 21, Some 22, Some 23, Some (1000::real)]"
  have h1: "0 < length age_table" by (simp add: age_table_def)
  have h2: "age_table ! 0 = (''age'', Num ?vs)" by (simp add: age_table_def)
  from handle_outliers_cap_within_bounds[OF h1 h2] obtain vs' where
    n: "nrows (handle_outliers age_table ''cap'') = nrows age_table" and
    a: "handle_outliers age_table ''cap'' ! 0 = (''age'', Num vs')" and
    l: "length vs' = length ?vs" and
    b: "\<forall>v. Some v \<in> set vs' \<longrightarrow>
          (\<exists>q1 q3. quantile ?vs (25/100) = Some q1 \<and> quantile ?vs (75/100) = Some q3 \<and>
             q1 - 15/10 * (q3 - q1) \<le> v \<and> v \<le> q3 + 15/10 * (q3 - q1))"
    by blast
  have "\<forall>v. Some v \<in> set vs' \<longrightarrow> 18 \<le> v \<and> v \<le> 26"
    using b unfolding q1_ex q3_ex by auto
  then show ?thesis using h1 h2 n a l by auto
qed

text \<open>
  Claim C2. When the 25th and the 75th percentile of a numeric column are equal, the
  detection returns normally, both bounds are that percentile, and an entry is marked as
  an outlier exactly when it is a value different from it.
\<close>

theorem detect_outliers_iqr_zero_iqr:
  assumes "quantile col (25/100) = Some q" and "quantile col (75/100) = Some q"
  shows "\<exists>outliers. detect_outliers_iqr col = (outliers, Some q, Some q) \<and>
           length outliers = length col \<and>
           (\<forall>i<length col. outliers ! i \<longleftrightarrow> (\<exists>v. col ! i = Some v \<and> v \<noteq> q))"
proof -
  have "detect_outliers_iqr col =
     (map (\<lambda>v. nan_lt v (Some q) \<or> nan_lt (Some q) v) col, Some q, Some q)"
    using detect_bounds[OF assms] by simp
  moreover have "(nan_lt v (Some q) \<or> nan_lt (Some q) v) \<longleftrightarrow> (\<exists>x. v = Some x \<and> x \<noteq> q)" for v
    by (cases v) (auto simp: nan_lt_def)
  ultimately show ?thesis by simp
qed

lemma flat_q1: "quantile [Some 5, Some 5, Some 5, Some 5, Some 7] (25/100) = Some 5"
  by (simp add: quantile_def lerp_sorted_def Let_def)
lemma flat_q3: "quantile [Some 5, Some 5, Some 5, Some 5, Some 7] (75/100) = Some 5"
  by (simp add: quantile_def lerp_sorted_def Let_def)

theorem detect_outliers_iqr_zero_iqr_witness:
  "quantile [Some 5, Some 5, Some 5, Some 5, Some 7] (25/100) = Some 5 \<and>
   quantile [Some 5, Some 5, Some 5, Some 5, Some 7] (75/100) = Some 5 \<and>
   detect_outliers_iqr [Some 5, Some 5, Some 5, Some 5, Some 7] =
     ([False, False, False, False, True], Some 5, Some 5)"
proof -
  from detect_outliers_iqr_zero_iqr[OF flat_q1 flat_q3] obtain outliers where
    d: "detect_outliers_iqr [Some 5, Some 5, Some 5, Some 5, Some 7] = (outliers, Some 5, Some 5)"
    and l: "length outliers = 5"
    and o: "\<forall>i<5. outliers ! i \<longleftrightarrow> (\<exists>v. [Some 5, Some 5, Some 5, Some 5, Some (7::real)] ! i = Some v \<and> v \<noteq> 5)"
    by auto
  have "outliers = [False, False, False, False, True]"
    using l o by (auto simp: list_eq_iff_nth_eq less_Suc_eq numeral_eq_Suc)
  then show ?thesis using d flat_q1 flat_q3 by simp
qed

lemma handle_outliers_col_unknown:
  "method \<noteq> ''cap'' \<Longrightarrow> handle_outliers_col method c = c"
  by (cases c) (auto split: prod.splits)

lemma scale_loop_unknown:
  "m \<noteq> ''standardize'' \<Longrightarrow> m \<noteq> ''normalize'' \<Longrightarrow> scale_features_loop m t = (t, [])"
  by (induction m t rule: scale_features_loop.induct) auto

text \<open>
  Claim C9, as amended. A method name outside \<open>cap\<close> and \<open>remove\<close> is not rejected by
  \<open>handle_outliers\<close>, which returns the table as it was; a method name outside
  \<open>standardize\<close> and \<open>normalize\<close> is not rejected by \<open>scale_features\<close>, which returns the
  table as it was and no scaling parameters.
\<close>

theorem unknown_method_not_rejected:
  "(method \<noteq> ''cap'' \<and> method \<noteq> ''remove'' \<longrightarrow> handle_outliers df method = df) \<and>
   (method \<noteq> ''standardize'' \<and> method \<noteq> ''normalize'' \<longrightarrow> scale_features df method = (df, []))"
proof -
  have "map (\<lambda>(name, c). (name, handle_outliers_col method c)) df = df" if "method \<noteq> ''cap''"
    using that by (induction df) (auto simp: handle_outliers_col_unknown)
  then show ?thesis
    by (auto simp: handle_outliers_def Let_def scale_features_def scale_loop_unknown)
qed

theorem unknown_method_not_rejected_witness:
  "''winsorize'' \<noteq> ''cap'' \<and> ''winsorize'' \<noteq> ''remove'' \<and>
   handle_outliers age_table ''winsorize'' = age_table \<and>
   ''robust'' \<noteq> ''standardize'' \<and> ''robust'' \<noteq> ''normalize'' \<and>
   scale_features age_table ''robust'' = (age_table, [])"
  using unknown_method_not_rejected[of "''winsorize''" age_table]
        unknown_method_not_rejected[of "''robust''" age_table]
  by simp

text \<open>The claim as stated (an unknown method name is rejected) fails: on a table with an
  outlier, which \<open>cap\<close> would change, an unknown name gives the table back.\<close>

theorem unknown_method_rejected_counterexample:
  "handle_outliers age_table ''winsorize'' = age_table \<and>
   handle_outliers age_table ''cap'' \<noteq> age_table \<and>
   scale_features age_table ''robust'' = (age_table, [])"
proof -
  have "handle_outliers age_table ''winsorize'' = age_table"
    by (simp add: handle_outliers_def age_table_def handle_outliers_col_unknown)
  moreover have "handle_outliers age_table ''cap'' \<noteq> age_table"
    by (simp add: age_cap) (simp add: age_table_def)
  moreover have "scale_features age_table ''robust'' = (age_table, [])"
    by (simp add: scale_features_def scale_loop_unknown)
  ultimately show ?thesis by simp
qed

section \<open>Missing values: median and mode imputation\<close>

lemma count_list_dropna: "count_list (dropna xs) v = count_list xs (Some v)"
  by (induction xs rule: dropna.induct) auto

lemma fold_max_Max: "fold max (xs::nat list) 0 = Max (set (0 # xs))"
  by (rule Max.set_eq_fold[symmetric])

lemma top_count_attained:
  assumes "d \<noteq> []"
  shows "\<exists>v\<in>set d. count_list d v = fold max (map (count_list d) d) 0"
proof -
  let ?cs = "map (count_list d) d"
  let ?top = "fold max ?cs 0"
  have top: "?top = Max (set (0 # ?cs))" by (rule fold_max_Max)
  have "?top \<in> set (0 # ?cs)" unfolding top by (rule Max_in) auto
  moreover have "count_list d (hd d) \<le> ?top" unfolding top using assms by (intro Max_ge) auto
  moreover have "0 < count_list d (hd d)" using assms by (cases d) auto
  ultimately have "?top \<in> set ?cs" by auto
  then show ?thesis by auto
qed

lemma top_count_ge:
  "v \<in> set d \<Longrightarrow> count_list d v \<le> fold max (map (count_list d) d) 0"
  unfolding fold_max_Max by (intro Max_ge) auto

lemma set_mode:
  "set (mode xs) = {v \<in> set (dropna xs). count_list (dropna xs) v = fold max (map (count_list (dropna xs)) (dropna xs)) 0}"
  by (auto simp: mode_def Let_def)

lemma sorted_mode: "sorted (mode xs)"
  by (simp add: mode_def Let_def)

lemma mode_nonempty: "dropna xs \<noteq> [] \<Longrightarrow> mode xs \<noteq> []"
proof -
  assume "dropna xs \<noteq> []"
  from top_count_attained[OF this] have "set (mode xs) \<noteq> {}" unfolding set_mode by blast
  then show ?thesis by auto
qed

lemma mode_empty: "dropna xs = [] \<Longrightarrow> mode xs = []"
  by (simp add: mode_def)

lemma mode_head:
  assumes "mode xs = m # rest"
  shows "Some m \<in> set xs"
    and "\<forall>v. count_list xs (Some v) \<le> count_list xs (Some m)"
    and "\<forall>v. count_list xs (Some v) = count_list xs (Some m) \<longrightarrow> m \<le> v"
proof -
  let ?d = "dropna xs"
  let ?top = "fold max (map (count_list ?d) ?d) 0"
  have "m \<in> set (mode xs)" using assms by simp
  then have m: "m \<in> set ?d" "count_list ?d m = ?top" unfolding set_mode by auto
  then show "Some m \<in> set xs" by (simp add: set_dropna)
  have pos: "0 < count_list ?d m" using m(1) by (metis count_list_0_iff gr0I)
  show "\<forall>v. count_list xs (Some v) \<le> count_list xs (Some m)"
  proof
    fix v
    show "count_list xs (Some v) \<le> count_list xs (Some m)"
    proof (cases "v \<in> set ?d")
      case True
      then show ?thesis using top_count_ge[OF True] m(2) by (simp add: count_list_dropna)
    next
      case False
      then have "count_list ?d v = 0" by (simp add: count_list_0_iff)
      then show ?thesis by (simp add: count_list_dropna)
    qed
  qed
  show "\<forall>v. count_list xs (Some v) = count_list xs (Some m) \<longrightarrow> m \<le> v"
  proof (intro allI impI)
    fix v assume e: "count_list xs (Some v) = count_list xs (Some m)"
    then have "count_list ?d v = ?top" using m(2) by (simp add: count_list_dropna)
    moreover have "v \<in> set ?d" using e pos by (metis count_list_dropna count_list_0_iff less_numeral_extra(3))
    ultimately have "v \<in> set (mode xs)" unfolding set_mode by simp
    then show "m \<le> v" using sorted_mode[of xs] assms by auto
  qed
qed

lemma fill_categorical_Num_Cons:
  "fill_categorical ((n, Num ws) # t) = Inr r \<Longrightarrow> \<exists>t'. r = (n, Num ws) # t' \<and> fill_categorical t = Inr t'"
  by (cases "fill_categorical t") auto

lemma fill_categorical_Cat_Cons:
  "fill_categorical ((n, Cat ws) # t) = Inr r \<Longrightarrow>
     \<exists>t'. r = (n, Cat (if isnull_sum ws > 0 then fillna (Some (hd (mode ws))) ws else ws)) # t' \<and>
          fill_categorical t = Inr t' \<and> (isnull_sum ws > 0 \<longrightarrow> mode ws \<noteq> [])"
  by (cases "fill_categorical t"; cases "mode ws"; cases "isnull_sum ws > 0") auto

lemma fill_categorical_Num:
  "fill_categorical t = Inr t' \<Longrightarrow> k < length t \<Longrightarrow> t ! k = (name, Num vs) \<Longrightarrow> t' ! k = (name, Num vs)"
proof (induction t arbitrary: t' k)
  case Nil then show ?case by simp
next
  case (Cons a t)
  obtain n c where a: "a = (n, c)" by (cases a)
  show ?case
  proof (cases c)
    case (Num ws)
    from fill_categorical_Num_Cons[OF Cons.prems(1)[unfolded a Num]] obtain r where
      r: "t' = (n, Num ws) # r" "fill_categorical t = Inr r" by auto
    show ?thesis using Cons.prems(2,3) Cons.IH[OF r(2)] r(1) a Num by (cases k) auto
  next
    case (Cat ws)
    from fill_categorical_Cat_Cons[OF Cons.prems(1)[unfolded a Cat]] obtain r c' where
      r: "t' = (n, c') # r" "fill_categorical t = Inr r" by auto
    show ?thesis using Cons.prems(2,3) Cons.IH[OF r(2)] r(1) a Cat by (cases k) auto
  qed
qed

lemma fill_categorical_Cat:
  "fill_categorical t = Inr t' \<Longrightarrow> k < length t \<Longrightarrow> t ! k = (name, Cat vs) \<Longrightarrow>
   t' ! k = (name, Cat (if isnull_sum vs > 0 then fillna (Some (hd (mode vs))) vs else vs)) \<and>
   (isnull_sum vs > 0 \<longrightarrow> mode vs \<noteq> [])"
proof (induction t arbitrary: t' k)
  case Nil then show ?case by simp
next
  case (Cons a t)
  obtain n c where a: "a = (n, c)" by (cases a)
  show ?case
  proof (cases c)
    case (Num ws)
    from fill_categorical_Num_Cons[OF Cons.prems(1)[unfolded a Num]] obtain r where
      r: "t' = (n, Num ws) # r" "fill_categorical t = Inr r" by auto
    show ?thesis using Cons.prems(2,3) Cons.IH[OF r(2)] r(1) a Num by (cases k) auto
  next
    case (Cat ws)
    from fill_categorical_Cat_Cons[OF Cons.prems(1)[unfolded a Cat]] obtain r where
      r: "t' = (n, Cat (if isnull_sum ws > 0 then fillna (Some (hd (mode ws))) ws else ws)) # r"
         "fill_categorical t = Inr r" "isnull_sum ws > 0 \<longrightarrow> mode ws \<noteq> []" by auto
    show ?thesis
    proof (cases k)
      case 0
      then show ?thesis using Cons.prems(3) r a Cat by auto
    next
      case (Suc k')
      then show ?thesis using Cons.prems(2,3) Cons.IH[OF r(2), of k'] r(1) by auto
    qed
  qed
qed

lemma fill_categorical_fails:
  "(name, Cat vs) \<in> set t \<Longrightarrow> isnull_sum vs > 0 \<Longrightarrow> dropna vs = [] \<Longrightarrow>
   fill_categorical t = Inl (KeyError ''0'')"
proof (induction t)
  case Nil then show ?case by simp
next
  case (Cons a t)
  obtain n c where a: "a = (n, c)" by (cases a)
  show ?case
  proof (cases "(name, Cat vs) = a")
    case True
    then have "a = (name, Cat vs)" by simp
    then show ?thesis using Cons.prems by (simp add: mode_empty)
  next
    case False
    then have ih: "fill_categorical t = Inl (KeyError ''0'')" using Cons by auto
    show ?thesis
    proof (cases c)
      case (Num ws) then show ?thesis using a ih by simp
    next
      case (Cat ws) then show ?thesis using a ih by (simp split: list.splits)
    qed
  qed
qed

lemma fill_categorical_succeeds:
  "fillable t \<Longrightarrow> \<exists>t'. fill_categorical t = Inr t'"
proof (induction t)
  case Nil then show ?case by simp
next
  case (Cons a t)
  obtain n c where a: "a = (n, c)" by (cases a)
  from Cons obtain r where r: "fill_categorical t = Inr r" by (auto simp: fillable_def)
  show ?case
  proof (cases c)
    case (Num ws) then show ?thesis using a r by simp
  next
    case (Cat ws)
    have "isnull_sum ws > 0 \<Longrightarrow> mode ws \<noteq> []"
      using Cons.prems a Cat mode_nonempty[of ws] by (auto simp: fillable_def)
    then show ?thesis using a r Cat by (cases "mode ws") auto
  qed
qed

lemma mode_ex: "mode [Some ''b'', Some ''a'', None] = [''a'', ''b'']"
  by (simp add: mode_def Let_def)

lemma dropna_Nil_iff: "dropna xs = [] \<longleftrightarrow> (\<forall>v\<in>set xs. v = None)"
  by (induction xs rule: dropna.induct) auto

lemma fillna_None: "fillna None xs = xs"
  by (induction xs) (auto simp: fillna_def split: option.splits)

lemma isnull_sum_pos_iff: "0 < isnull_sum xs \<longleftrightarrow> None \<in> set xs"
  by (induction xs) (auto simp: isnull_sum_def)

lemma fill_numerical_all_missing: "dropna vs = [] \<Longrightarrow> fill_numerical (Num vs) = Num vs"
  by (simp add: median_def fillna_None)

lemma fillable_fill_numerical:
  "fillable t \<Longrightarrow> fillable (map (\<lambda>(name, c). (name, fill_numerical c)) t)"
proof (induction t)
  case Nil then show ?case by (simp add: fillable_def)
next
  case (Cons a t)
  obtain n c where a: "a = (n, c)" by (cases a)
  show ?case using Cons a by (cases c) (auto simp: fillable_def)
qed

lemma nth_fill_numerical:
  "k < length t \<Longrightarrow> t ! k = (name, c) \<Longrightarrow>
   map (\<lambda>(name, c). (name, fill_numerical c)) t ! k = (name, fill_numerical c)"
  by simp

lemma total_missing_pos:
  "(name, c) \<in> set t \<Longrightarrow> 0 < series_isnull_sum c \<Longrightarrow>
   0 < sum_list (map (\<lambda>(name, c). series_isnull_sum c) t)"
  by (induction t) auto

lemma handle_missing_values_some:
  assumes "0 < sum_list (map (\<lambda>(name, c). series_isnull_sum c) df)"
  shows "handle_missing_values df = fill_categorical (map (\<lambda>(name, c). (name, fill_numerical c)) df)"
proof -
  have "sum_list (map (\<lambda>(name, c). series_isnull_sum c) df) \<noteq> 0" using assms by linarith
  then show ?thesis unfolding handle_missing_values_def Let_def by (rule if_not_P)
qed

lemma fill_categorical_shape:
  "fill_categorical t = Inr t' \<Longrightarrow> length t' = length t"
proof (induction t arbitrary: t')
  case Nil then show ?case by simp
next
  case (Cons a t)
  obtain n c where a: "a = (n, c)" by (cases a)
  show ?case
  proof (cases c)
    case (Num ws)
    from fill_categorical_Num_Cons[OF Cons.prems(1)[unfolded a Num]] Cons.IH show ?thesis by auto
  next
    case (Cat ws)
    from fill_categorical_Cat_Cons[OF Cons.prems(1)[unfolded a Cat]] Cons.IH show ?thesis by auto
  qed
qed

text \<open>
  Claim C5, as amended. A column all of whose entries are missing is not flagged by the
  imputer. If it is numeric, its median is NaN and \<open>handle_missing_values\<close> returns a table
  in which the column is unchanged (provided each categorical column can be filled). If it
  is categorical and has a row, \<open>mode()[0]\<close> has nothing to return and
  \<open>handle_missing_values\<close> as a whole ends with the lookup error of the label \<open>0\<close>, so
  that no table is produced.
\<close>

theorem all_missing_column_not_flagged:
  "(fillable df \<and> k < length df \<and> df ! k = (name, Num vs) \<and> (\<forall>v\<in>set vs. v = None)
      \<longrightarrow> (\<exists>df'. handle_missing_values df = Inr df' \<and> df' ! k = (name, Num vs))) \<and>
   ((cname, Cat ws) \<in> set df \<and> ws \<noteq> [] \<and> (\<forall>v\<in>set ws. v = None)
      \<longrightarrow> handle_missing_values df = Inl (KeyError ''0''))"
proof (intro conjI impI)
  assume A: "fillable df \<and> k < length df \<and> df ! k = (name, Num vs) \<and> (\<forall>v\<in>set vs. v = None)"
  let ?t = "map (\<lambda>(name, c). (name, fill_numerical c)) df"
  from A have d: "dropna vs = []" by (simp add: dropna_Nil_iff)
  from A have "fillable ?t" by (simp add: fillable_fill_numerical)
  then obtain r where r: "fill_categorical ?t = Inr r" using fill_categorical_succeeds by blast
  have "?t ! k = (name, Num vs)"
    using A nth_fill_numerical[of k df name "Num vs"] fill_numerical_all_missing[OF d] by simp
  then have "r ! k = (name, Num vs)" using fill_categorical_Num[OF r, of k name vs] A by simp
  then show "\<exists>df'. handle_missing_values df = Inr df' \<and> df' ! k = (name, Num vs)"
    using r A by (auto simp: handle_missing_values_def Let_def)
next
  assume B: "(cname, Cat ws) \<in> set df \<and> ws \<noteq> [] \<and> (\<forall>v\<in>set ws. v = None)"
  let ?t = "map (\<lambda>(name, c). (name, fill_numerical c)) df"
  from B have d: "dropna ws = []" by (simp add: dropna_Nil_iff)
  from B have n: "None \<in> set ws" by (cases ws) auto
  then have p: "0 < isnull_sum ws" by (simp add: isnull_sum_pos_iff)
  then have tm: "0 < sum_list (map (\<lambda>(name, c). series_isnull_sum c) df)"
    using total_missing_pos[of cname "Cat ws" df] B by simp
  have "(cname, fill_numerical (Cat ws)) \<in> set ?t" using B by force
  then have "(cname, Cat ws) \<in> set ?t" by simp
  then have "fill_categorical ?t = Inl (KeyError ''0'')" using p d by (rule fill_categorical_fails)
  then show "handle_missing_values df = Inl (KeyError ''0'')"
    using handle_missing_values_some[OF tm] by simp
qed

theorem all_missing_column_not_flagged_witness:
  "fillable income_city_table \<and> 0 < length income_city_table \<and>
   income_city_table ! 0 = (''income'', Num [None, None]) \<and>
   (\<exists>df'. handle_missing_values income_city_table = Inr df' \<and> df' ! 0 = (''income'', Num [None, None])) \<and>
   (''city'', Cat [None, None]) \<in> set empty_city_table \<and>
   handle_missing_values empty_city_table = Inl (KeyError ''0'')"
  using all_missing_column_not_flagged[of income_city_table 0 "''income''" "[None, None]" "''x''" "[]"]
        all_missing_column_not_flagged[of empty_city_table 0 "''x''" "[]" "''city''" "[None, None]"]
  by (simp add: income_city_table_def empty_city_table_def fillable_def isnull_sum_def)

text \<open>The claim as stated (an all-missing column is flagged with an explicit error) fails:
  an all-missing numeric column passes through, unchanged and without an error.\<close>

theorem all_missing_column_flagged_counterexample:
  "handle_missing_values [(''income'', Num [None, None])] = Inr [(''income'', Num [None, None])]"
  by (simp add: handle_missing_values_def isnull_sum_def median_def fillna_def)

text \<open>
  Claim C6, as amended. In a categorical column with a missing entry and a value, each
  missing entry is replaced by a most frequent value of the column; when several values
  have the highest frequency, the one used is the least of them in ascending order (the
  order in which pandas returns the modes), not the first encountered.
\<close>

theorem categorical_mode_imputation:
  assumes "fillable df" and "k < length df" and "df ! k = (name, Cat vs)"
    and "None \<in> set vs" and "\<exists>x. Some x \<in> set vs"
  shows "\<exists>df' m. handle_missing_values df = Inr df' \<and>
           df' ! k = (name, Cat (map (\<lambda>v. case v of None \<Rightarrow> Some m | Some y \<Rightarrow> Some y) vs)) \<and>
           Some m \<in> set vs \<and>
           (\<forall>v. count_list vs (Some v) \<le> count_list vs (Some m)) \<and>
           (\<forall>v. count_list vs (Some v) = count_list vs (Some m) \<longrightarrow> m \<le> v)"
proof -
  let ?t = "map (\<lambda>(name, c). (name, fill_numerical c)) df"
  have p: "0 < isnull_sum vs" using assms(4) by (simp add: isnull_sum_pos_iff)
  have "(name, Cat vs) \<in> set df" using assms(2,3) by (metis nth_mem)
  then have tm: "0 < sum_list (map (\<lambda>(name, c). series_isnull_sum c) df)"
    using total_missing_pos[of name "Cat vs" df] p by simp
  have "fillable ?t" using assms(1) by (rule fillable_fill_numerical)
  then obtain r where r: "fill_categorical ?t = Inr r" using fill_categorical_succeeds by blast
  then have h: "handle_missing_values df = Inr r" using handle_missing_values_some[OF tm] by simp
  have "?t ! k = (name, Cat vs)" using assms(2,3) by simp
  from fill_categorical_Cat[OF r _ this] assms(2) p
  have rk: "r ! k = (name, Cat (fillna (Some (hd (mode vs))) vs))" and ne: "mode vs \<noteq> []" by auto
  then obtain m rest where m: "mode vs = m # rest" by (cases "mode vs") auto
  have "r ! k = (name, Cat (map (\<lambda>v. case v of None \<Rightarrow> Some m | Some y \<Rightarrow> Some y) vs))"
    using rk m by (simp add: fillna_def)
  then show ?thesis using h mode_head[OF m] by blast
qed

theorem categorical_mode_imputation_witness:
  "fillable [(''city'', Cat [Some ''b'', Some ''a'', None])] \<and>
   handle_missing_values [(''city'', Cat [Some ''b'', Some ''a'', None])] =
     Inr [(''city'', Cat [Some ''b'', Some ''a'', Some ''a''])]"
proof -
  let ?vs = "[Some ''b'', Some ''a'', None]"
  let ?df = "[(''city'', Cat ?vs)]"
  have f: "fillable ?df" by (simp add: fillable_def)
  have "\<exists>x. Some x \<in> set ?vs" by auto
  from categorical_mode_imputation[OF f _ _ _ this, of 0 "''city''"]
  obtain df' m where h: "handle_missing_values ?df = Inr df'"
    and k: "df' ! 0 = (''city'', Cat (map (\<lambda>v. case v of None \<Rightarrow> Some m | Some y \<Rightarrow> Some y) ?vs))"
    and mem: "Some m \<in> set ?vs"
    and least: "\<forall>v. count_list ?vs (Some v) = count_list ?vs (Some m) \<longrightarrow> m \<le> v"
    by auto
  have "m = ''a''"
  proof -
    from mem have "m = ''b'' \<or> m = ''a''" by auto
    then show ?thesis
    proof
      assume b: "m = ''b''"
      with least have "''b'' \<le> ''a''" by (auto dest: spec[of _ "''a''"])
      then show ?thesis by simp
    qed
  qed
  moreover have "length df' = 1"
    using h fill_categorical_shape[of "[(''city'', Cat ?vs)]" df']
    by (simp add: handle_missing_values_def isnull_sum_def)
  ultimately have "df' = [(''city'', Cat [Some ''b'', Some ''a'', Some ''a''])]"
    using k by (cases df') auto
  then show ?thesis using f h by simp
qed

text \<open>The claim as stated (ties go to the value encountered first) fails: \<open>b\<close> and \<open>a\<close>
  occur once each, \<open>b\<close> first, and the missing entry becomes \<open>a\<close>.\<close>

theorem mode_tie_first_encountered_counterexample:
  "count_list [Some ''b'', Some ''a'', None, Some ''c'', Some ''c'', Some ''b'', Some ''a''] (Some ''b'') =
   count_list [Some ''b'', Some ''a'', None, Some ''c'', Some ''c'', Some ''b'', Some ''a''] (Some ''a'') \<and>
   handle_missing_values
     [(''city'', Cat [Some ''b'', Some ''a'', None, Some ''c'', Some ''c'', Some ''b'', Some ''a''])] =
     Inr [(''city'', Cat [Some ''b'', Some ''a'', Some ''a'', Some ''c'', Some ''c'', Some ''b'', Some ''a''])]"
proof -
  have "mode [Some ''b'', Some ''a'', None, Some ''c'', Some ''c'', Some ''b'', Some ''a''] = [''a'', ''b'', ''c'']"
    by (simp add: mode_def Let_def)
  then show ?thesis
    by (simp add: handle_missing_values_def isnull_sum_def fillna_def)
qed

section \<open>Duplicate removal\<close>

lemma select_list_Nil [simp]: "select_list keep [] = []" "select_list [] xs = []"
  by (simp_all add: select_list_def)

lemma select_list_Cons [simp]:
  "select_list (k # keep) (x # xs) = (if k then x # select_list keep xs else select_list keep xs)"
  by (simp add: select_list_def)

lemma select_list_map: "select_list keep (map f xs) = map f (select_list keep xs)"
proof (induction keep arbitrary: xs)
  case Nil then show ?case by simp
next
  case (Cons k keep) then show ?case by (cases xs) auto
qed

lemma select_list_zip:
  "select_list keep (zip xs ys) = zip (select_list keep xs) (select_list keep ys)"
proof (induction keep arbitrary: xs ys)
  case Nil then show ?case by simp
next
  case (Cons k keep) then show ?case by (cases xs; cases ys) auto
qed

lemma cells_select_col: "cells (select_col keep c) = select_list keep (cells c)"
  by (cases c) (simp_all add: select_list_map)

lemma rows_of_select_rows: "rows_of (select_rows keep t) = select_list keep (rows_of t)"
proof (induction t rule: rows_of.induct)
  case 1 then show ?case by (simp add: select_rows_def)
next
  case (2 name c)
  then show ?case by (simp add: select_rows_def cells_select_col select_list_map)
next
  case (3 name c v va)
  then show ?case
    by (simp add: select_rows_def cells_select_col select_list_map select_list_zip)
qed

lemma select_list_nth:
  "length keep = length xs \<Longrightarrow>
   select_list keep xs = map ((!) xs) (filter (\<lambda>i. keep ! i) [0..<length xs])"
proof (induction keep arbitrary: xs)
  case Nil then show ?case by simp
next
  case (Cons k keep)
  then obtain x xs' where xs: "xs = x # xs'" by (cases xs) auto
  have l: "length keep = length xs'" using Cons.prems xs by simp
  have up: "0 # map Suc [0..<length xs'] = [0..<length (x # xs')]"
    by (simp add: upt_conv_Cons map_Suc_upt del: upt_Suc)
  have "select_list (k # keep) (x # xs') =
          map ((!) (x # xs')) (filter (\<lambda>i. (k # keep) ! i) (0 # map Suc [0..<length xs']))"
    using Cons.IH[OF l] by (simp add: filter_map o_def)
  then show ?case unfolding up xs .
qed

lemma length_duplicated [simp]: "length (duplicated rs) = length rs"
  by (simp add: duplicated_def)

lemma kept_rows:
  "select_list (map Not (duplicated rs)) rs =
     map ((!) rs) (filter (\<lambda>i. rs ! i \<notin> set (take i rs)) [0..<length rs])"
proof -
  have "filter (\<lambda>i. map Not (duplicated rs) ! i) [0..<length rs]
      = filter (\<lambda>i. rs ! i \<notin> set (take i rs)) [0..<length rs]"
    by (rule filter_cong) (auto simp: duplicated_def)
  then show ?thesis using select_list_nth[of "map Not (duplicated rs)" rs] by simp
qed

lemma distinct_kept_rows: "distinct (select_list (map Not (duplicated rs)) rs)"
proof -
  let ?K = "filter (\<lambda>i. rs ! i \<notin> set (take i rs)) [0..<length rs]"
  have "inj_on ((!) rs) (set ?K)"
  proof (rule inj_onI)
    fix i j assume i: "i \<in> set ?K" and j: "j \<in> set ?K" and e: "rs ! i = rs ! j"
    show "i = j"
    proof (rule ccontr)
      assume ne: "i \<noteq> j"
      have aux: "a < b \<Longrightarrow> b < length rs \<Longrightarrow> rs ! a \<in> set (take b rs)" for a b
        by (metis in_set_conv_nth length_take min.absorb2 less_imp_le nth_take)
      from ne consider "i < j" | "j < i" by linarith
      then show False
      proof cases
        case 1 then show False using aux[of i j] i j e by auto
      next
        case 2 then show False using aux[of j i] i j e by auto
      qed
    qed
  qed
  then have "distinct (map ((!) rs) ?K)" by (simp add: distinct_map)
  then show ?thesis by (simp add: kept_rows)
qed

lemma duplicated_distinct:
  assumes "distinct rs"
  shows "filter id (duplicated rs) = []"
proof -
  have "rs ! i \<notin> set (take i rs)" if "i < length rs" for i
  proof
    assume "rs ! i \<in> set (take i rs)"
    then obtain j where "j < i" "rs ! j = rs ! i"
      using that by (auto simp: in_set_conv_nth)
    then show False using assms that by (auto simp: distinct_conv_nth)
  qed
  then show ?thesis by (auto simp: duplicated_def filter_empty_conv)
qed

lemma no_duplicates_kept_all:
  assumes "filter id (duplicated rs) = []"
  shows "map ((!) rs) (filter (\<lambda>i. rs ! i \<notin> set (take i rs)) [0..<length rs]) = rs"
proof -
  have "\<forall>i<length rs. rs ! i \<notin> set (take i rs)"
    using assms by (auto simp: duplicated_def filter_empty_conv)
  then have "filter (\<lambda>i. rs ! i \<notin> set (take i rs)) [0..<length rs] = [0..<length rs]"
    by (auto simp: filter_id_conv)
  then show ?thesis by (simp add: map_nth)
qed

lemma remove_duplicates_none:
  "filter id (duplicated (rows_of df)) = [] \<Longrightarrow> remove_duplicates df = df"
  by (simp add: remove_duplicates_def Let_def)

lemma remove_duplicates_some:
  "filter id (duplicated (rows_of df)) \<noteq> [] \<Longrightarrow>
   remove_duplicates df = select_rows (map Not (duplicated (rows_of df))) df"
  by (simp add: remove_duplicates_def Let_def)

lemma rows_of_remove_duplicates:
  "rows_of (remove_duplicates df) =
     map ((!) (rows_of df))
       (filter (\<lambda>i. rows_of df ! i \<notin> set (take i (rows_of df))) [0..<length (rows_of df)])"
proof (cases "filter id (duplicated (rows_of df)) = []")
  case True
  then show ?thesis using no_duplicates_kept_all[OF True] by (simp add: remove_duplicates_none)
next
  case False
  then show ?thesis
    by (simp add: remove_duplicates_some rows_of_select_rows kept_rows)
qed

lemma distinct_rows_of_remove_duplicates: "distinct (rows_of (remove_duplicates df))"
proof (cases "filter id (duplicated (rows_of df)) = []")
  case True
  have "distinct (select_list (map Not (duplicated (rows_of df))) (rows_of df))"
    by (rule distinct_kept_rows)
  then show ?thesis using no_duplicates_kept_all[OF True] True
    by (simp add: remove_duplicates_none kept_rows)
next
  case False
  then show ?thesis
    by (simp add: remove_duplicates_some rows_of_select_rows distinct_kept_rows)
qed

lemma remove_duplicates_idem: "remove_duplicates (remove_duplicates df) = remove_duplicates df"
  by (rule remove_duplicates_none) (rule duplicated_distinct, rule distinct_rows_of_remove_duplicates)

lemma length_select_list:
  "length keep = length xs \<Longrightarrow> length (select_list keep xs) = length (filter id keep)"
proof (induction keep arbitrary: xs)
  case Nil then show ?case by simp
next
  case (Cons k keep) then show ?case by (cases xs) auto
qed

lemma length_cells [simp]: "length (cells c) = col_len c"
  by (cases c) simp_all

lemma length_rows_of_uniform:
  "list_all (\<lambda>(name, c). col_len c = m) t \<Longrightarrow> t \<noteq> [] \<Longrightarrow> length (rows_of t) = m"
  by (induction t rule: rows_of.induct) auto

lemma length_rows_of: "wf_table t \<Longrightarrow> length (rows_of t) = nrows t"
proof (cases t)
  case Nil then show ?thesis by simp
next
  case (Cons a t')
  assume "wf_table t"
  then have "list_all (\<lambda>(name, c). col_len c = nrows t) t" by (simp add: wf_table_def)
  then show ?thesis using Cons length_rows_of_uniform[of "nrows t" t] by simp
qed

lemma nrows_select_rows:
  assumes "wf_table t" and "length keep = nrows t"
  shows "nrows (select_rows keep t) = length (filter id keep)"
proof (cases t)
  case Nil
  then show ?thesis using assms by (simp add: select_rows_def)
next
  case (Cons a t')
  obtain n c where a: "a = (n, c)" by (cases a)
  have "col_len (select_col keep c) = length (select_list keep (cells c))"
    by (simp flip: cells_select_col)
  also have "\<dots> = length (filter id keep)"
    using assms(2) Cons a by (intro length_select_list) simp
  finally show ?thesis using Cons a by (simp add: select_rows_def)
qed

lemma count_not: "length (filter id (map Not bs)) = length bs - length (filter id bs)"
proof -
  have "length (filter id bs) + length (filter (\<lambda>b. \<not> id b) bs) = length bs"
    by (rule sum_length_filter_compl)
  then show ?thesis by (simp add: filter_map o_def)
qed

lemma count_Not: "length (filter Not bs) = length bs - length (filter id bs)"
  using count_not[of bs] by (simp add: filter_map o_def)

lemma nrows_remove_duplicates:
  assumes "wf_table df"
  shows "nrows (remove_duplicates df) = nrows df - length (filter id (duplicated (rows_of df)))"
proof (cases "filter id (duplicated (rows_of df)) = []")
  case True
  then show ?thesis by (simp add: remove_duplicates_none)
next
  case False
  have "nrows (select_rows (map Not (duplicated (rows_of df))) df)
          = length (filter id (map Not (duplicated (rows_of df))))"
    using assms by (intro nrows_select_rows) (simp_all add: length_rows_of)
  then show ?thesis using False assms
    by (simp add: remove_duplicates_some count_Not length_rows_of)
qed

text \<open>
  Claim C7. Removing duplicates twice gives the same table as removing them once; the rows
  kept are those that do not equal an earlier row, in their original order; and the number
  of rows of the result is the number of rows of the input less the number of rows that
  equal an earlier row.
\<close>

theorem remove_duplicates_keeps_first:
  assumes "wf_table df"
  shows "remove_duplicates (remove_duplicates df) = remove_duplicates df \<and>
         rows_of (remove_duplicates df) =
           map ((!) (rows_of df))
             (filter (\<lambda>i. rows_of df ! i \<notin> set (take i (rows_of df))) [0..<nrows df]) \<and>
         nrows (remove_duplicates df) =
           nrows df - length (filter (\<lambda>i. rows_of df ! i \<in> set (take i (rows_of df))) [0..<nrows df])"
proof -
  have "length (filter id (duplicated (rows_of df)))
      = length (filter (\<lambda>i. rows_of df ! i \<in> set (take i (rows_of df))) [0..<nrows df])"
    using assms by (simp add: duplicated_def filter_map o_def length_rows_of)
  then show ?thesis
    using remove_duplicates_idem[of df] rows_of_remove_duplicates[of df]
          nrows_remove_duplicates[OF assms] length_rows_of[OF assms]
    by simp
qed

lemma applicants_rows:
  "rows_of applicants_table =
     [[NumCell (Some 10), CatCell (Some ''x'')], [NumCell (Some 20), CatCell (Some ''y'')],
      [NumCell (Some 10), CatCell (Some ''x'')], [NumCell None, CatCell None], [NumCell None, CatCell None]]"
  by (simp add: applicants_table_def)

lemma applicants_dup: "duplicated (rows_of applicants_table) = [False, False, True, False, True]"
  unfolding applicants_rows by (simp add: duplicated_def upt_rec_numeral)

lemma applicants_dedup:
  "remove_duplicates applicants_table =
     [(''income'', Num [Some 10, Some 20, None]), (''city'', Cat [Some ''x'', Some ''y'', None])]"
  by (simp add: remove_duplicates_def applicants_dup Let_def)
     (simp add: applicants_table_def select_rows_def)

theorem remove_duplicates_keeps_first_witness:
  "wf_table applicants_table \<and>
   remove_duplicates (remove_duplicates applicants_table) = remove_duplicates applicants_table \<and>
   rows_of (remove_duplicates applicants_table) =
     [[NumCell (Some 10), CatCell (Some ''x'')], [NumCell (Some 20), CatCell (Some ''y'')],
      [NumCell None, CatCell None]] \<and>
   nrows (remove_duplicates applicants_table) = 5 - 2"
proof -
  have w: "wf_table applicants_table" by (simp add: wf_table_def applicants_table_def)
  have n: "nrows applicants_table = 5" by (simp add: applicants_table_def)
  let ?R = "[[NumCell (Some 10), CatCell (Some ''x'')], [NumCell (Some 20), CatCell (Some ''y'')],
      [NumCell (Some 10), CatCell (Some ''x'')], [NumCell None, CatCell None], [NumCell None, CatCell None]]"
  have u: "[0..<5] = [0, 1, 2, 3, 4::nat]" by code_simp
  have k: "filter (\<lambda>i. ?R ! i \<notin> set (take i ?R)) [0..<5] = [0, 1, 3]"
    unfolding u by simp
  have d: "filter (\<lambda>i. ?R ! i \<in> set (take i ?R)) [0..<5] = [2, 4]"
    unfolding u by simp
  from remove_duplicates_keeps_first[OF w, unfolded n applicants_rows k d]
  show ?thesis using w by simp
qed

section \<open>Bias and balance analysis\<close>

lemma fold_max_eq_Max: "xs \<noteq> [] \<Longrightarrow> fold max (tl xs) (hd xs) = Max (set xs)"
  by (cases xs) (simp_all add: Max.set_eq_fold[symmetric])

lemma fold_min_eq_Min: "xs \<noteq> [] \<Longrightarrow> fold min (tl xs) (hd xs) = Min (set xs)"
  by (cases xs) (simp_all add: Min.set_eq_fold[symmetric])

lemma approval_rates_of_nonempty:
  assumes "approval_rates_of xs ys a = Inr rates"
  shows "rates \<noteq> []"
proof -
  let ?p = "crosstab_pairs xs ys"
  have c: "sort (remdups (map snd ?p)) \<noteq> []"
    using assms by (auto simp: approval_rates_of_def Let_def split: list.splits)
  have "?p \<noteq> []"
  proof
    assume "?p = []"
    then have "sort (remdups (map snd ?p)) = []" by simp
    with c show False by simp
  qed
  then have "set (sort (remdups (map fst ?p))) \<noteq> {}" by simp
  then have "sort (remdups (map fst ?p)) \<noteq> []" by (metis set_empty)
  then show ?thesis
    using assms by (auto simp: approval_rates_of_def Let_def split: list.splits)
qed

lemma approval_rates_of_returns:
  assumes "crosstab_pairs xs ys \<noteq> []"
  shows "\<exists>rates. approval_rates_of xs ys a = Inr rates"
proof -
  have "set (sort (remdups (map snd (crosstab_pairs xs ys)))) \<noteq> {}" using assms by simp
  then have "sort (remdups (map snd (crosstab_pairs xs ys))) \<noteq> []" by (metis set_empty)
  then show ?thesis by (auto simp: approval_rates_of_def Let_def split: list.splits)
qed

lemma approval_rates_of_raises:
  "crosstab_pairs xs ys = [] \<Longrightarrow> approval_rates_of xs ys a = Inl IndexError"
  by (simp add: approval_rates_of_def)

lemma crosstab_rates_nonempty: "crosstab_rates xs tc = Inr rates \<Longrightarrow> rates \<noteq> []"
  by (cases tc) (auto dest: approval_rates_of_nonempty)

lemma analyze_feature_flag:
  assumes "analyze_feature col xs tc = Inr (entry, msg)"
  shows "approval_rates entry \<noteq> [] \<and>
         (bias_detected entry \<longleftrightarrow>
            15 < Max (snd ` set (approval_rates entry)) - Min (snd ` set (approval_rates entry)))"
proof -
  from assms obtain rates where r: "crosstab_rates xs tc = Inr rates"
    by (cases "crosstab_rates xs tc") (auto simp: analyze_feature_def)
  then have ne: "map snd rates \<noteq> []" using crosstab_rates_nonempty by auto
  have e: "approval_rates entry = rates"
    "bias_detected entry \<longleftrightarrow> 15 < max_rate_of (map snd rates) - min_rate_of (map snd rates)"
    using assms r by (auto simp: analyze_feature_def Let_def)
  have "max_rate_of (map snd rates) = Max (snd ` set rates)"
    unfolding max_rate_of_def using fold_max_eq_Max[OF ne] by simp
  moreover have "min_rate_of (map snd rates) = Min (snd ` set rates)"
    unfolding min_rate_of_def using fold_min_eq_Min[OF ne] by simp
  ultimately show ?thesis using e ne by simp
qed

lemma bias_loop_entries:
  "bias_loop df cols = Inr (entries, msgs) \<Longrightarrow> (col, entry) \<in> set entries \<Longrightarrow>
   \<exists>xs tc msg. analyze_feature col xs tc = Inr (entry, msg)"
proof (induction cols arbitrary: entries msgs)
  case Nil then show ?case by simp
next
  case (Cons c cols)
  show ?case
  proof (cases "\<exists>xs tc. map_of df c = Some (Cat xs) \<and> map_of df target_col = Some tc")
    case True
    then obtain xs tc where m: "map_of df c = Some (Cat xs)" "map_of df target_col = Some tc" by auto
    from Cons.prems(1) m obtain e1 m1 es ms where
      a: "analyze_feature c xs tc = Inr (e1, m1)" and l: "bias_loop df cols = Inr (es, ms)"
      and en: "entries = (c, e1) # es"
      by (auto split: sum.splits prod.splits)
    show ?thesis
    proof (cases "(col, entry) = (c, e1)")
      case True then show ?thesis using a by auto
    next
      case False
      then have "(col, entry) \<in> set es" using Cons.prems(2) en by auto
      then show ?thesis using Cons.IH[OF l] by simp
    qed
  next
    case False
    then have "bias_loop df (c # cols) = bias_loop df cols"
      by (auto split: option.splits column.splits)
    then show ?thesis using Cons by simp
  qed
qed

lemma analyze_categorical_bias_entries:
  assumes "analyze_categorical_bias df res = Inr (res', msgs)" and "bias_analysis res' = Some entries"
  shows "\<exists>ms. bias_loop df (remove1 target_col (categorical_cols df)) = Inr (entries, ms)"
  using assms by (auto simp: analyze_categorical_bias_def Let_def split: sum.splits prod.splits)




lemma bias_flag_entries:
  assumes "analyze_categorical_bias df res = Inr (res', msgs)" and "bias_analysis res' = Some entries"
    and "(col, entry) \<in> set entries"
  shows "approval_rates entry \<noteq> [] \<and>
        (bias_detected entry \<longleftrightarrow>
           15 < Max (snd ` set (approval_rates entry)) - Min (snd ` set (approval_rates entry)))"
proof -
  from analyze_categorical_bias_entries[OF assms(1,2)] obtain ms where
    "bias_loop df (remove1 target_col (categorical_cols df)) = Inr (entries, ms)" by blast
  from bias_loop_entries[OF this assms(3)] obtain xs tc' msg where
    "analyze_feature col xs tc' = Inr (entry, msg)" by blast
  then show ?thesis by (rule analyze_feature_flag)
qed






lemma set_crosstab_pairs:
  "set (crosstab_pairs xs ys) = {(a, b). (Some a, Some b) \<in> set (zip xs ys)}"
  by (auto simp: crosstab_pairs_def split: option.splits)

lemma count_concat_pairs:
  "count_list (concat (map (\<lambda>(x, y). case x of None \<Rightarrow> [] | Some a \<Rightarrow> (case y of None \<Rightarrow> [] | Some b \<Rightarrow> [(a, b)])) zs)) (a, b)
     = length (filter (\<lambda>(x, y). x = Some a \<and> y = Some b) zs)"
  by (induction zs) (auto split: option.splits if_splits)

lemma count_crosstab_pairs:
  "count_list (crosstab_pairs xs ys) (a, b)
     = length (filter (\<lambda>(x, y). x = Some a \<and> y = Some b) (zip xs ys))"
  unfolding crosstab_pairs_def by (rule count_concat_pairs)

lemma count_fst_concat_pairs:
  "count_list (map fst (concat (map (\<lambda>(x, y). case x of None \<Rightarrow> [] | Some a \<Rightarrow> (case y of None \<Rightarrow> [] | Some b \<Rightarrow> [(a, b)])) zs))) a
     = length (filter (\<lambda>(x, y). x = Some a \<and> y \<noteq> None) zs)"
  by (induction zs) (auto split: option.splits if_splits)

lemma count_fst_crosstab_pairs:
  "count_list (map fst (crosstab_pairs xs ys)) a
     = length (filter (\<lambda>(x, y). x = Some a \<and> y \<noteq> None) (zip xs ys))"
  unfolding crosstab_pairs_def by (rule count_fst_concat_pairs)

lemma fst_set_crosstab_pairs:
  "set (map fst (crosstab_pairs xs ys)) = {a. \<exists>b. (Some a, Some b) \<in> set (zip xs ys)}"
  by (force simp: set_crosstab_pairs)

lemma snd_set_crosstab_pairs:
  "set (map snd (crosstab_pairs xs ys)) = {b. \<exists>a. (Some a, Some b) \<in> set (zip xs ys)}"
  by (force simp: set_crosstab_pairs)

lemma sorted_hd_Min: "sorted (x # xs) \<Longrightarrow> Min (set (x # xs)) = x"
  by (intro Min_eqI) auto

lemma approval_rates_of_spec:
  assumes "crosstab_pairs xs ys \<noteq> []"
  shows "approval_rates_of xs ys preferred = Inr (approval_rates_spec xs ys preferred)"
proof -
  let ?P = "crosstab_pairs xs ys"
  let ?cols = "sort (remdups (map snd ?P))"
  let ?labels = "{b. \<exists>a. (Some a, Some b) \<in> set (zip xs ys)}"
  have "set ?cols \<noteq> {}" using assms by simp
  then obtain first rest where c: "?cols = first # rest" by (cases ?cols) auto
  have sc: "set ?cols = ?labels" using snd_set_crosstab_pairs[of xs ys] by simp
  have "sorted (first # rest)" using c by (metis sorted_sort)
  then have "Min (set (first # rest)) = first" by (rule sorted_hd_Min)
  then have first: "first = Min ?labels" using c sc by simp
  have L: "(case preferred of None \<Rightarrow> first | Some a \<Rightarrow> if a \<in> set ?cols then a else first)
            = approval_label_spec xs ys preferred"
    unfolding approval_label_spec_def Let_def sc first by (simp split: option.splits)
  have idx: "sort (remdups (map fst ?P)) = sorted_list_of_set {a. \<exists>b. (Some a, Some b) \<in> set (zip xs ys)}"
    using sorted_list_of_set_sort_remdups[of "map fst ?P"] fst_set_crosstab_pairs[of xs ys] by simp
  have rate: "real (count_list ?P (c', l)) / real (count_list (map fst ?P) c') * 100
                = approval_rate_spec xs ys l c'" for c' l
    by (simp add: approval_rate_spec_def count_crosstab_pairs count_fst_crosstab_pairs)
  have "approval_rates_of xs ys preferred =
          Inr (map (\<lambda>category. (category,
                 real (count_list ?P (category, approval_label_spec xs ys preferred))
                   / real (count_list (map fst ?P) category) * 100))
               (sort (remdups (map fst ?P))))"
    unfolding approval_rates_of_def Let_def c list.case L[unfolded c] ..
  then show ?thesis unfolding rate idx approval_rates_spec_def .
qed

lemma has_joint_row_pairs:
  "has_joint_row xs (Cat ys) \<longleftrightarrow> crosstab_pairs xs ys \<noteq> []"
  "has_joint_row xs (Num zs) \<longleftrightarrow> crosstab_pairs xs zs \<noteq> []"
proof -
  have "list_ex (\<lambda>(x, y). x \<noteq> None \<and> y \<noteq> None) (zip xs ws) \<longleftrightarrow> set (crosstab_pairs xs ws) \<noteq> {}"
    for ws :: "'c option list"
    unfolding set_crosstab_pairs by (auto simp: list_ex_iff)
  then show "has_joint_row xs (Cat ys) \<longleftrightarrow> crosstab_pairs xs ys \<noteq> []"
    and "has_joint_row xs (Num zs) \<longleftrightarrow> crosstab_pairs xs zs \<noteq> []"
    by simp_all
qed

lemma crosstab_rates_spec:
  "has_joint_row xs tc \<Longrightarrow> crosstab_rates xs tc = Inr (feature_rates_spec xs tc)"
  by (cases tc) (simp_all add: has_joint_row_pairs approval_rates_of_spec del: has_joint_row.simps)

lemma crosstab_rates_raises:
  "\<not> has_joint_row xs tc \<Longrightarrow> crosstab_rates xs tc = Inl IndexError"
  by (cases tc) (simp_all add: has_joint_row_pairs approval_rates_of_raises del: has_joint_row.simps)

lemma analyze_feature_complete:
  assumes "has_joint_row xs tc"
  shows "\<exists>entry msg. analyze_feature col xs tc = Inr (entry, msg) \<and>
           approval_rates entry = feature_rates_spec xs tc \<and>
           approval_rates entry \<noteq> [] \<and>
           (bias_detected entry \<longleftrightarrow>
              15 < Max (snd ` set (approval_rates entry)) - Min (snd ` set (approval_rates entry)))"
proof -
  have r: "crosstab_rates xs tc = Inr (feature_rates_spec xs tc)"
    using assms by (rule crosstab_rates_spec)
  then obtain entry msg where a: "analyze_feature col xs tc = Inr (entry, msg)"
    by (simp add: analyze_feature_def Let_def)
  then have "approval_rates entry = feature_rates_spec xs tc"
    using r by (auto simp: analyze_feature_def Let_def)
  then show ?thesis using a analyze_feature_flag[OF a] by blast
qed

lemma analyze_feature_raises:
  "\<not> has_joint_row xs tc \<Longrightarrow> analyze_feature col xs tc = Inl IndexError"
  by (simp add: analyze_feature_def crosstab_rates_raises)


lemma bias_loop_raises:
  assumes "map_of df target_col = Some tc"
    and "c \<in> set cols" and "map_of df c = Some (Cat xs)" and "\<not> has_joint_row xs tc"
  shows "bias_loop df cols = Inl IndexError"
  using assms(2)
proof (induction cols)
  case Nil then show ?case by simp
next
  case (Cons c' cols)
  show ?case
  proof (cases "c' = c")
    case True
    then show ?thesis using assms(1,3,4) by (simp add: analyze_feature_raises)
  next
    case False
    then have ih: "bias_loop df cols = Inl IndexError" using Cons by auto
    show ?thesis
    proof (cases "\<exists>xs'. map_of df c' = Some (Cat xs')")
      case True
      then obtain xs' where x: "map_of df c' = Some (Cat xs')" by auto
      show ?thesis
      proof (cases "has_joint_row xs' tc")
        case True
        from analyze_feature_complete[OF True, of c'] obtain e m where
          "analyze_feature c' xs' tc = Inr (e, m)" by blast
        then show ?thesis using x assms(1) ih by simp
      next
        case False
        then show ?thesis using x assms(1) by (simp add: analyze_feature_raises)
      qed
    next
      case False
      then have "bias_loop df (c' # cols) = bias_loop df cols"
        by (auto split: option.splits column.splits)
      then show ?thesis using ih by simp
    qed
  qed
qed








lemma target_balance_absent:
  "map_of df target_col = None \<Longrightarrow>
   analyze_target_balance df res = (res, [TargetColumnNotFound target_col])"
  by (simp add: analyze_target_balance_def)

lemma bias_loop_absent:
  "map_of df target_col = None \<Longrightarrow> bias_loop df cols = Inr ([], [])"
  by (induction cols) (auto split: option.splits column.splits)

lemma run_analysis_absent:
  assumes "map_of df target_col = None"
  shows "run_analysis df =
     Inl (if remove1 target_col (categorical_cols df) \<noteq> [] then KeyError target_col
          else KeyError ''class_balance'')"
proof -
  let ?r2 = "analyze_numerical_distributions df (load_data df)"
  let ?cols = "remove1 target_col (categorical_cols df)"
  have cb: "class_balance ?r2 = None" and di: "dataset_info ?r2 \<noteq> None"
    by (simp_all add: analyze_numerical_distributions_def load_data_def)
  show ?thesis
  proof (cases "?cols = []")
    case True
    then have "analyze_categorical_bias df ?r2 = Inr (?r2\<lparr>bias_analysis := Some []\<rparr>, [])"
      using assms by (simp add: analyze_categorical_bias_def bias_loop_absent plot_categorical_bias_def)
    moreover have "generate_report (?r2\<lparr>bias_analysis := Some []\<rparr>) = Inl (KeyError ''class_balance'')"
      using cb di by (auto simp: generate_report_def create_report_content_def split: option.splits)
    ultimately show ?thesis using True assms
      by (simp add: run_analysis_def target_balance_absent Let_def)
  next
    case False
    then have "analyze_categorical_bias df ?r2 = Inl (KeyError target_col)"
      using assms by (simp add: analyze_categorical_bias_def bias_loop_absent plot_categorical_bias_def Let_def)
    then show ?thesis using False assms
      by (simp add: run_analysis_def target_balance_absent Let_def)
  qed
qed

text \<open>
  Claim C8 fails on the code. Without the target column, \<open>analyze_target_balance\<close> reports
  that the column was not found and returns, but the run does not complete: with a
  categorical column the plots of the bias analysis look the target column up and raise,
  and otherwise the report reads the class balance that was never stored and raises.
\<close>

theorem run_analysis_without_target_crashes:
  "analyze_target_balance gender_table (load_data gender_table) =
     (load_data gender_table, [TargetColumnNotFound ''loan_approval_status'']) \<and>
   run_analysis gender_table = Inl (KeyError ''loan_approval_status'') \<and>
   analyze_target_balance id_table (load_data id_table) =
     (load_data id_table, [TargetColumnNotFound ''loan_approval_status'']) \<and>
   run_analysis id_table = Inl (KeyError ''class_balance'')"
proof -
  have g: "map_of gender_table target_col = None" by (simp add: gender_table_def target_col_def)
  have i: "map_of id_table target_col = None" by (simp add: id_table_def target_col_def)
  have "run_analysis gender_table = Inl (KeyError ''loan_approval_status'')"
    unfolding run_analysis_absent[OF g] by (simp add: gender_table_def target_col_def)
  moreover have "run_analysis id_table = Inl (KeyError ''class_balance'')"
    unfolding run_analysis_absent[OF i] by (simp add: id_table_def target_col_def)
  ultimately show ?thesis
    using target_balance_absent[OF g] target_balance_absent[OF i] by (simp add: target_col_def)
qed

section \<open>Categorical encoding\<close>

text \<open>On a column without missing entries the encoder follows its policy: the codes of the
  binary and the label encoding number the distinct values in order of first appearance,
  and the one-hot encoding adds one column less than there are distinct values.\<close>

lemma set_unique_from: "set (unique_from seen xs) = set xs - set seen"
  by (induction xs arbitrary: seen) auto

lemma distinct_unique_from: "distinct (unique_from seen xs)"
  by (induction xs arbitrary: seen) (auto simp: set_unique_from)

lemma set_unique [simp]: "set (unique xs) = set xs"
  by (simp add: unique_def set_unique_from)

lemma distinct_unique [simp]: "distinct (unique xs)"
  by (simp add: unique_def distinct_unique_from)

lemma length_unique: "length (unique xs) = card (set xs)"
  using distinct_card[of "unique xs"] by simp

text \<open>The positional reads \<open>unique_vals[0]\<close> and \<open>unique_vals[1]\<close> of the binary branch are
  in range: \<open>unique()\<close> lists at least the distinct non-missing values.\<close>

lemma nunique_le_length_unique: "nunique vs \<le> length (unique vs)"
proof -
  have "Some ` set (dropna vs) \<subseteq> set vs" by (auto simp: set_dropna)
  then have "card (Some ` set (dropna vs)) \<le> card (set vs)" by (intro card_mono) auto
  moreover have "card (Some ` set (dropna vs)) = card (set (dropna vs))"
    by (intro card_image) (simp add: inj_on_def)
  ultimately show ?thesis by (simp add: nunique_def length_unique)
qed

lemma unique_from_map_Some:
  "unique_from (map Some seen) (map Some xs) = map Some (unique_from seen xs)"
proof (induction xs arbitrary: seen)
  case Nil then show ?case by simp
next
  case (Cons a xs)
  have "Some a \<in> set (map Some seen) \<longleftrightarrow> a \<in> set seen" by auto
  then show ?case using Cons.IH[of seen] Cons.IH[of "a # seen"] by simp
qed

lemma no_missing_dropna: "None \<notin> set vs \<Longrightarrow> map Some (dropna vs) = vs"
  by (induction vs rule: dropna.induct) auto

lemma unique_no_missing:
  assumes "None \<notin> set vs"
  shows "unique vs = map Some (unique (dropna vs))"
proof -
  have "unique (map Some (dropna vs)) = map Some (unique (dropna vs))"
    using unique_from_map_Some[of "[]" "dropna vs"] by (simp add: unique_def)
  then show ?thesis using no_missing_dropna[OF assms] by simp
qed

lemma length_unique_no_missing: "None \<notin> set vs \<Longrightarrow> length (unique vs) = nunique vs"
  by (simp add: unique_no_missing nunique_def)

lemma zip_two: "length u = 2 \<Longrightarrow> [(u ! 0, 0), (u ! 1, 1)] = zip u [0..<2::nat]"
proof -
  assume "length u = 2"
  then obtain a b where "u = [a, b]"
    by (cases u; cases "tl u") (auto simp: numeral_2_eq_2)
  moreover have "[0..<2] = [0, 1::nat]" by code_simp
  ultimately show ?thesis by simp
qed

lemma encode_column_no_missing:
  assumes "None \<notin> set vs" and "nunique vs \<le> 10"
  shows "encode_column col vs (df, em) =
           (set_column col (Num (map_series (zip (unique vs) [0..<nunique vs]) vs)) df,
            em @ [(col, zip (unique vs) [0..<nunique vs])])"
proof (cases "nunique vs = 2")
  case True
  then have "length (unique vs) = 2" using length_unique_no_missing[OF assms(1)] by simp
  from zip_two[OF this] True show ?thesis
    by (simp add: encode_column_def Let_def)
next
  case False
  then show ?thesis
    using assms(2) length_unique_no_missing[OF assms(1)] by (simp add: encode_column_def Let_def)
qed

lemma map_of_zip_index:
  assumes "distinct u" and "i < length u"
  shows "map_of (zip u [0..<length u]) (u ! i) = Some i"
  using map_of_zip_nth[of u "[0..<length u]" i] assms by simp

lemma index_bijective:
  assumes "distinct u"
  shows "bij_betw (\<lambda>v. the (map_of (zip u [0..<length u]) v)) (set u) {0..<length u}"
proof -
  let ?f = "\<lambda>v. the (map_of (zip u [0..<length u]) v)"
  have idx: "?f (u ! i) = i" if "i < length u" for i
    using map_of_zip_index[OF assms that] by simp
  show ?thesis
  proof (rule bij_betw_byWitness[where f' = "\<lambda>i. u ! i"])
    show "\<forall>a\<in>set u. u ! ?f a = a" using idx by (auto simp: in_set_conv_nth)
    show "\<forall>i\<in>{0..<length u}. ?f (u ! i) = i" using idx by auto
    show "?f ` set u \<subseteq> {0..<length u}" using idx by (auto simp: in_set_conv_nth)
    show "(\<lambda>i. u ! i) ` {0..<length u} \<subseteq> set u" by auto
  qed
qed

lemma codes_bijective:
  assumes "None \<notin> set vs"
  shows "bij_betw (\<lambda>v. the (map_of (zip (unique vs) [0..<nunique vs]) v)) (set vs) {0..<nunique vs}"
  using index_bijective[of "unique vs"] length_unique_no_missing[OF assms] by simp

lemma length_get_dummies: "length (get_dummies col vs) = nunique vs - 1"
proof -
  have "length (remdups (dropna vs)) = card (set (dropna vs))" by (simp add: length_remdups_card_conv)
  then show ?thesis by (simp add: get_dummies_def nunique_def length_unique)
qed

lemma encode_column_one_hot:
  assumes "10 < nunique vs"
  shows "encode_column col vs (df, em) = (drop_column col (df @ get_dummies col vs), em)"
    and "col \<notin> fst ` set (drop_column col (df @ get_dummies col vs))"
    and "map fst (get_dummies col vs) = map (\<lambda>level. col @ ''_'' @ level) (tl (sort (remdups (dropna vs))))"
  using assms by (auto simp: encode_column_def Let_def drop_column_def get_dummies_def o_def)

lemma gender_missing_unique:
  "nunique [Some ''M'', None, Some ''F'', Some ''M''] = 2"
  "unique [Some ''M'', None, Some ''F'', Some ''M''] = [Some ''M'', None, Some ''F'']"
  by (simp_all add: nunique_def unique_def)

text \<open>
  Claim C3 fails on the code when the column has a missing entry: the branch is chosen by
  the number of distinct non-missing values, but the mapping is built from \<open>unique()\<close>,
  which lists the missing entry too. With two values, one of them gets no code and the
  missing entry gets one; with three, the codes of the values are not \<open>0, 1, 2\<close>.
\<close>

theorem binary_encoding_with_missing_value:
  "nunique [Some ''M'', None, Some ''F'', Some ''M''] = 2 \<and>
   encode_categorical_variables gender_missing_table =
     ([(''gender'', Num [Some 0, Some 1, None, Some 0])],
      [(''gender'', [(Some ''M'', 0), (None, 1)])]) \<and>
   nunique [None, Some ''a'', Some ''b'', Some ''c''] = 3 \<and>
   encode_categorical_variables grade_missing_table =
     ([(''grade'', Num [Some 0, Some 1, Some 2, Some 3])],
      [(''grade'', [(None, 0), (Some ''a'', 1), (Some ''b'', 2), (Some ''c'', 3)])])"
proof -
  have u: "[0..<4] = [0, 1, 2, 3::nat]" by code_simp
  have g: "nunique [None, Some ''a'', Some ''b'', Some ''c''] = 3"
    "unique [None, Some ''a'', Some ''b'', Some ''c''] = [None, Some ''a'', Some ''b'', Some ''c'']"
    by (simp_all add: nunique_def unique_def)
  have "encode_categorical_variables gender_missing_table =
     ([(''gender'', Num [Some 0, Some 1, None, Some 0])],
      [(''gender'', [(Some ''M'', 0), (None, 1)])])"
    by (simp add: encode_categorical_variables_def gender_missing_table_def encode_column_def
          gender_missing_unique map_series_def set_column_def Let_def)
  moreover have "encode_categorical_variables grade_missing_table =
     ([(''grade'', Num [Some 0, Some 1, Some 2, Some 3])],
      [(''grade'', [(None, 0), (Some ''a'', 1), (Some ''b'', 2), (Some ''c'', 3)])])"
    by (simp add: encode_categorical_variables_def grade_missing_table_def encode_column_def
          g u map_series_def set_column_def Let_def)
  ultimately show ?thesis using gender_missing_unique(1) g(1) by simp
qed

text \<open>
  Claim C10 fails on the code when the column has a missing entry before its single
  value: the value is mapped to 1, the missing entry to 0, the column is not constant and
  the recorded mapping has two entries.
\<close>

theorem single_value_encoding_with_missing_value:
  "nunique [None, Some ''US'', Some ''US''] = 1 \<and>
   encode_categorical_variables country_missing_table =
     ([(''country'', Num [Some 0, Some 1, Some 1])],
      [(''country'', [(None, 0), (Some ''US'', 1)])])"
proof -
  have u: "[0..<2] = [0, 1::nat]" by code_simp
  have g: "nunique [None, Some ''US'', Some ''US''] = 1"
    "unique [None, Some ''US'', Some ''US''] = [None, Some ''US'']"
    by (simp_all add: nunique_def unique_def)
  have "encode_categorical_variables country_missing_table =
     ([(''country'', Num [Some 0, Some 1, Some 1])],
      [(''country'', [(None, 0), (Some ''US'', 1)])])"
    by (simp add: encode_categorical_variables_def country_missing_table_def encode_column_def
          g u map_series_def set_column_def Let_def)
  then show ?thesis using g(1) by simp
qed

end
